theory Spec2Isabelle
  imports Complex_Main "HOL-Library.Word" "HOL-Library.Multiset" "HOL-Library.Log_Nat"
begin

section \<open>Strings and paths (Go standard library, Unix path conventions)\<close>

text \<open>
  A Go string is a sequence of bytes; it is modelled as \<^typ>\<open>string\<close>. The functions of
  this section are the library functions the repository calls (\<open>strings.ToLower\<close>,
  \<open>strings.TrimSuffix\<close>, \<open>filepath.Ext\<close>, \<open>filepath.Base\<close>, \<open>filepath.Join\<close>),
  written out after their documented behaviour with \<open>/\<close> as the only path separator.
\<close>

definition isPathSeparator :: "char \<Rightarrow> bool" where
  "isPathSeparator c = (c = CHR ''/'')"

definition isASCII :: "string \<Rightarrow> bool" where
  "isASCII s = list_all (\<lambda>c. of_char c < (128::nat)) s"

definition lowerASCII :: "char \<Rightarrow> char" where
  "lowerASCII c =
     (if of_char (CHR ''A'') \<le> (of_char c :: nat) \<and> (of_char c :: nat) \<le> of_char (CHR ''Z'')
      then char_of (of_char c + (32::nat)) else c)"

text \<open>
  \<open>strings.ToLower\<close>: an ASCII-only string is lower-cased byte by byte; any other string
  goes through the Unicode case tables, which are taken as the parameter \<open>uni\<close>.
\<close>

definition ToLower :: "(string \<Rightarrow> string) \<Rightarrow> string \<Rightarrow> string" where
  "ToLower uni s = (if isASCII s then map lowerASCII s else uni s)"

definition HasSuffix :: "string \<Rightarrow> string \<Rightarrow> bool" where
  "HasSuffix s suf = (length suf \<le> length s \<and> drop (length s - length suf) s = suf)"

definition TrimSuffix :: "string \<Rightarrow> string \<Rightarrow> string" where
  "TrimSuffix s suf = (if HasSuffix s suf then take (length s - length suf) s else s)"

text \<open>
  \<open>filepath.Ext\<close> walks the path backwards until a separator: at the first dot it returns
  the suffix that starts there. \<open>Ext_loop\<close> takes the reversed part still to scan and the
  suffix already passed.
\<close>

fun Ext_loop :: "string \<Rightarrow> string \<Rightarrow> string" where
  "Ext_loop [] suf = []"
| "Ext_loop (c # rest) suf =
     (if isPathSeparator c then []
      else if c = CHR ''.'' then c # suf
      else Ext_loop rest (c # suf))"

definition filepath_Ext :: "string \<Rightarrow> string" where
  "filepath_Ext path = Ext_loop (rev path) []"

definition filepath_Base :: "string \<Rightarrow> string" where
  "filepath_Base path =
     (if path = [] then ''.''
      else let p = rev (dropWhile isPathSeparator (rev path));
               e = rev (takeWhile (\<lambda>c. \<not> isPathSeparator c) (rev p))
           in if e = [] then ''/'' else e)"

text \<open>
  \<open>filepath.Clean\<close>, element by element: empty elements and \<open>.\<close> are dropped, \<open>..\<close>
  removes the element before it, is kept at the front of a relative path and is dropped at
  the root. \<open>out\<close> is the stack of elements kept so far, last one first.
\<close>

fun splitSep :: "string \<Rightarrow> string \<Rightarrow> string list" where
  "splitSep [] cur = [rev cur]"
| "splitSep (c # cs) cur =
     (if isPathSeparator c then rev cur # splitSep cs [] else splitSep cs (c # cur))"

fun cleanElems :: "bool \<Rightarrow> string list \<Rightarrow> string list \<Rightarrow> string list" where
  "cleanElems rooted [] out = rev out"
| "cleanElems rooted (e # es) out =
     (if e = [] \<or> e = ''.'' then cleanElems rooted es out
      else if e = ''..'' then
        (case out of
           [] \<Rightarrow> if rooted then cleanElems rooted es [] else cleanElems rooted es [e]
         | t # ts \<Rightarrow> if t = ''..'' then cleanElems rooted es (e # out)
                     else cleanElems rooted es ts)
      else cleanElems rooted es (e # out))"

fun joinSep :: "string list \<Rightarrow> string" where
  "joinSep [] = []"
| "joinSep [e] = e"
| "joinSep (e # es) = e @ ''/'' @ joinSep es"

definition filepath_Clean :: "string \<Rightarrow> string" where
  "filepath_Clean path =
     (if path = [] then ''.''
      else let rooted = isPathSeparator (hd path);
               body = joinSep (cleanElems rooted (splitSep path []) [])
           in if rooted then ''/'' @ body
              else if body = [] then ''.'' else body)"

text \<open>\<open>filepath.Join\<close>: the elements from the first non-empty one on are joined with the
  separator and cleaned; with no non-empty element the result is empty.\<close>

definition filepath_Join :: "string list \<Rightarrow> string" where
  "filepath_Join elems =
     (let es = dropWhile (\<lambda>e. e = []) elems
      in if es = [] then [] else filepath_Clean (joinSep es))"

section \<open>Formats (internal/converter/format.go, internal/types)\<close>

type_synonym ImageFormat = string

definition FormatJPEG :: ImageFormat where "FormatJPEG = ''jpeg''"
definition FormatPNG :: ImageFormat where "FormatPNG = ''png''"
definition FormatWebP :: ImageFormat where "FormatWebP = ''webp''"
definition FormatGIF :: ImageFormat where "FormatGIF = ''gif''"
definition FormatBMP :: ImageFormat where "FormatBMP = ''bmp''"

lemmas Format_defs = FormatJPEG_def FormatPNG_def FormatWebP_def FormatGIF_def FormatBMP_def

datatype error =
    External string
  | UnsupportedImageFormat string
  | UnsupportedOutputFormat string
  | Wrap string error

text \<open>A Go map from strings to booleans: a missing key reads as \<open>false\<close>.\<close>

definition lookupBool :: "(string \<rightharpoonup> bool) \<Rightarrow> string \<Rightarrow> bool" where
  "lookupBool m k = (case m k of None \<Rightarrow> False | Some b \<Rightarrow> b)"

definition DetectFormat :: "(string \<Rightarrow> string) \<Rightarrow> string \<Rightarrow> error + ImageFormat" where
  "DetectFormat uni path =
     (let ext = ToLower uni (filepath_Ext path)
      in if ext = ''.jpg'' \<or> ext = ''.jpeg'' then Inr FormatJPEG
         else if ext = ''.png'' then Inr FormatPNG
         else if ext = ''.webp'' then Inr FormatWebP
         else if ext = ''.gif'' then Inr FormatGIF
         else if ext = ''.bmp'' then Inr FormatBMP
         else Inl (UnsupportedImageFormat ext))"

definition supportedFormats :: "string \<rightharpoonup> bool" where
  "supportedFormats =
     [''jpeg'' \<mapsto> True, ''jpg'' \<mapsto> True, ''png'' \<mapsto> True,
      ''webp'' \<mapsto> True, ''gif'' \<mapsto> True, ''bmp'' \<mapsto> True]"

definition IsFormatSupported :: "(string \<Rightarrow> string) \<Rightarrow> string \<Rightarrow> bool" where
  "IsFormatSupported uni format = lookupBool supportedFormats (ToLower uni format)"

definition NormalizeFormat :: "(string \<Rightarrow> string) \<Rightarrow> string \<Rightarrow> ImageFormat" where
  "NormalizeFormat uni format =
     (let normalizedFormat = ToLower uni format
      in if normalizedFormat = ''jpg'' then FormatJPEG else normalizedFormat)"

definition newExt :: "ImageFormat \<Rightarrow> string" where
  "newExt outputFormat =
     (if outputFormat = FormatJPEG then ''.jpg''
      else if outputFormat = FormatPNG then ''.png''
      else if outputFormat = FormatWebP then ''.webp''
      else if outputFormat = FormatGIF then ''.gif''
      else if outputFormat = FormatBMP then ''.bmp''
      else ''.jpg'')"

definition baseNameWithoutExt :: "string \<Rightarrow> string" where
  "baseNameWithoutExt inputPath =
     (let baseName = filepath_Base inputPath
      in TrimSuffix baseName (filepath_Ext baseName))"

definition GenerateOutputFilename :: "string \<Rightarrow> ImageFormat \<Rightarrow> string" where
  "GenerateOutputFilename inputPath outputFormat =
     baseNameWithoutExt inputPath @ newExt outputFormat"

definition GenerateOutputPath :: "string \<Rightarrow> string \<Rightarrow> ImageFormat \<Rightarrow> string" where
  "GenerateOutputPath inputPath outputDir outputFormat =
     filepath_Join [outputDir, GenerateOutputFilename inputPath outputFormat]"

section \<open>The file classifier (internal/filesystem/filesystem.go)\<close>

definition imageExtensions :: "string \<rightharpoonup> bool" where
  "imageExtensions =
     [''.jpg'' \<mapsto> True, ''.jpeg'' \<mapsto> True, ''.png'' \<mapsto> True,
      ''.gif'' \<mapsto> True, ''.bmp'' \<mapsto> True, ''.webp'' \<mapsto> True]"

definition IsImageFile :: "(string \<Rightarrow> string) \<Rightarrow> string \<Rightarrow> bool" where
  "IsImageFile uni path = lookupBool imageExtensions (ToLower uni (filepath_Ext path))"

section \<open>IEEE 754 binary64 arithmetic (Go's \<open>float64\<close>)\<close>

text \<open>
  A finite \<open>float64\<close> is the rational number it denotes; the two zeros are not
  distinguished (the program never observes the sign of a zero: it compares, rounds and
  converts to \<open>int\<close>, and it only divides by the conversion of an \<open>int\<close>, which is
  \<open>+0\<close> when it is zero). Every arithmetic operation yields the exact result rounded to the
  nearest representable value, ties to the even significand (\<open>round_f64\<close>): 53
  significant bits, exponents from \<open>-1022\<close> (gradual underflow below) to \<open>1023\<close>
  (infinity above).
\<close>

datatype float64 = Finite rat | PosInf | NegInf | NaN

definition roundEven :: "rat \<Rightarrow> int" where
  "roundEven x =
     (let n = \<lfloor>x\<rfloor>; d = x - of_int n
      in if d < 1 / 2 then n else if 1 / 2 < d then n + 1
         else if even n then n else n + 1)"

text \<open>\<open>ilog2 x\<close> is the binary exponent of a positive \<open>x\<close>: \<open>2 ^ ilog2 x \<le> x < 2 ^ (ilog2 x + 1)\<close>.\<close>

definition ilog2 :: "rat \<Rightarrow> int" where
  "ilog2 x =
     (let (p, q) = quotient_of x; k = bitlen p - bitlen q
      in if 2 powi k \<le> x then k else k - 1)"

definition round_f64 :: "rat \<Rightarrow> float64" where
  "round_f64 x =
     (if x = 0 then Finite 0
      else let e = max (ilog2 \<bar>x\<bar>) (- 1022);
               u = 2 powi (e - 52);
               y = of_int (roundEven (x / u)) * u
           in if 2 powi 1024 \<le> \<bar>y\<bar> then (if 0 < x then PosInf else NegInf)
              else Finite y)"

fun f64_mul :: "float64 \<Rightarrow> float64 \<Rightarrow> float64" where
  "f64_mul (Finite x) (Finite y) = round_f64 (x * y)"
| "f64_mul NaN _ = NaN"
| "f64_mul _ NaN = NaN"
| "f64_mul (Finite x) PosInf = (if x = 0 then NaN else if 0 < x then PosInf else NegInf)"
| "f64_mul (Finite x) NegInf = (if x = 0 then NaN else if 0 < x then NegInf else PosInf)"
| "f64_mul PosInf (Finite y) = (if y = 0 then NaN else if 0 < y then PosInf else NegInf)"
| "f64_mul NegInf (Finite y) = (if y = 0 then NaN else if 0 < y then NegInf else PosInf)"
| "f64_mul PosInf PosInf = PosInf"
| "f64_mul PosInf NegInf = NegInf"
| "f64_mul NegInf PosInf = NegInf"
| "f64_mul NegInf NegInf = PosInf"

fun f64_div :: "float64 \<Rightarrow> float64 \<Rightarrow> float64" where
  "f64_div (Finite x) (Finite y) =
     (if y = 0 then (if x = 0 then NaN else if 0 < x then PosInf else NegInf)
      else round_f64 (x / y))"
| "f64_div NaN _ = NaN"
| "f64_div _ NaN = NaN"
| "f64_div (Finite x) PosInf = Finite 0"
| "f64_div (Finite x) NegInf = Finite 0"
| "f64_div PosInf (Finite y) = (if 0 \<le> y then PosInf else NegInf)"
| "f64_div NegInf (Finite y) = (if 0 \<le> y then NegInf else PosInf)"
| "f64_div PosInf PosInf = NaN"
| "f64_div PosInf NegInf = NaN"
| "f64_div NegInf PosInf = NaN"
| "f64_div NegInf NegInf = NaN"

text \<open>The comparisons \<open>x > 0\<close> and \<open>x == 0\<close>; both are false on \<open>NaN\<close>.\<close>

fun f64_gt0 :: "float64 \<Rightarrow> bool" where
  "f64_gt0 (Finite x) = (0 < x)"
| "f64_gt0 PosInf = True"
| "f64_gt0 NegInf = False"
| "f64_gt0 NaN = False"

fun f64_eq0 :: "float64 \<Rightarrow> bool" where
  "f64_eq0 (Finite x) = (x = 0)"
| "f64_eq0 f = False"

text \<open>\<open>math.Min\<close>: \<open>-Inf\<close> wins over everything, then \<open>NaN\<close>, then the smaller value.\<close>

fun math_Min :: "float64 \<Rightarrow> float64 \<Rightarrow> float64" where
  "math_Min NegInf _ = NegInf"
| "math_Min _ NegInf = NegInf"
| "math_Min NaN _ = NaN"
| "math_Min _ NaN = NaN"
| "math_Min (Finite x) (Finite y) = (if x < y then Finite x else Finite y)"
| "math_Min (Finite x) PosInf = Finite x"
| "math_Min PosInf (Finite y) = Finite y"
| "math_Min PosInf PosInf = PosInf"

text \<open>\<open>math.Round\<close>: the nearest integer, halves away from zero; infinities and \<open>NaN\<close> stay.\<close>

definition roundHalfAway :: "rat \<Rightarrow> int" where
  "roundHalfAway x = (if 0 \<le> x then \<lfloor>x + 1 / 2\<rfloor> else - \<lfloor>- x + 1 / 2\<rfloor>)"

fun math_Round :: "float64 \<Rightarrow> float64" where
  "math_Round (Finite x) = Finite (of_int (roundHalfAway x))"
| "math_Round f = f"

text \<open>
  Go's \<open>int\<close> is taken as the 64-bit two's complement integer, read with \<^const>\<open>sint\<close>.
  \<open>float64(n)\<close> rounds like any other operation. \<open>int(f)\<close> truncates towards zero; when
  the truncated value is not an \<open>int\<close> (or \<open>f\<close> is not finite) the language leaves the
  result to the implementation, which is the parameter \<open>oob\<close>.
\<close>

definition f64_of_int :: "64 word \<Rightarrow> float64" where
  "f64_of_int n = round_f64 (of_int (sint n))"

definition truncToZero :: "rat \<Rightarrow> int" where
  "truncToZero x = (if 0 \<le> x then \<lfloor>x\<rfloor> else \<lceil>x\<rceil>)"

definition int_of_f64 :: "(float64 \<Rightarrow> 64 word) \<Rightarrow> float64 \<Rightarrow> 64 word" where
  "int_of_f64 oob f =
     (case f of
        Finite x \<Rightarrow>
          if - (2 ^ 63) \<le> truncToZero x \<and> truncToZero x < 2 ^ 63 then word_of_int (truncToZero x)
          else oob f
      | _ \<Rightarrow> oob f)"

section \<open>The geometry calculator (internal/converter/resize.go)\<close>

record ResizeSpec =
  Scale :: float64
  Width :: "64 word"
  Height :: "64 word"

definition CalculateOutputSize ::
  "(float64 \<Rightarrow> 64 word) \<Rightarrow> 64 word \<Rightarrow> 64 word \<Rightarrow> ResizeSpec \<Rightarrow> 64 word \<times> 64 word" where
  "CalculateOutputSize oob srcWidth srcHeight spec =
     (if f64_gt0 (Scale spec) then
        (int_of_f64 oob (math_Round (f64_mul (f64_of_int srcWidth) (Scale spec))),
         int_of_f64 oob (math_Round (f64_mul (f64_of_int srcHeight) (Scale spec))))
      else if 0 < sint (Width spec) \<and> 0 < sint (Height spec) then
        (let scaleW = f64_div (f64_of_int (Width spec)) (f64_of_int srcWidth);
             scaleH = f64_div (f64_of_int (Height spec)) (f64_of_int srcHeight);
             scale = math_Min scaleW scaleH
         in (int_of_f64 oob (math_Round (f64_mul (f64_of_int srcWidth) scale)),
             int_of_f64 oob (math_Round (f64_mul (f64_of_int srcHeight) scale))))
      else if 0 < sint (Width spec) then
        (let scale = f64_div (f64_of_int (Width spec)) (f64_of_int srcWidth)
         in (Width spec, int_of_f64 oob (math_Round (f64_mul (f64_of_int srcHeight) scale))))
      else if 0 < sint (Height spec) then
        (let scale = f64_div (f64_of_int (Height spec)) (f64_of_int srcHeight)
         in (int_of_f64 oob (math_Round (f64_mul (f64_of_int srcWidth) scale)), Height spec))
      else (srcWidth, srcHeight))"

text \<open>
  A decoded image: the size of its bounds (\<open>Bounds().Dx()\<close>, \<open>Bounds().Dy()\<close>) and its
  pixel data.
\<close>

record Image =
  Dx :: "64 word"
  Dy :: "64 word"
  Pix :: "8 word list"

definition CalculateOutputSizeFromImage ::
  "(float64 \<Rightarrow> 64 word) \<Rightarrow> Image \<Rightarrow> ResizeSpec \<Rightarrow> 64 word \<times> 64 word" where
  "CalculateOutputSizeFromImage oob img spec = CalculateOutputSize oob (Dx img) (Dy img) spec"

text \<open>
  A call either returns a value or panics with a message. Nothing in the program recovers,
  so a panic leaves every function on the call stack and ends the process.
\<close>

datatype 'a outcome = Returns 'a | Panics string

text \<open>
  The part of the standard library's \<open>image\<close> package behind \<open>image.NewRGBA\<close>.
  \<open>image.Rect\<close> orders its corners; \<open>mul3NonNeg\<close> multiplies three non-negative
  numbers and answers \<open>-1\<close> on a negative factor or an overflow, working on the two
  64-bit halves of each product (\<open>bits.Mul64\<close>); \<open>pixelBufferLength\<close> panics on that
  answer. \<open>make\<close> is the runtime's: \<open>makeBytes n\<close> is \<open>None\<close> when a byte slice of
  length \<open>n\<close> is allocated and the message the process ends with when it is not.
\<close>

record Rectangle =
  MinX :: "64 word"
  MinY :: "64 word"
  MaxX :: "64 word"
  MaxY :: "64 word"

definition image_Rect :: "64 word \<Rightarrow> 64 word \<Rightarrow> 64 word \<Rightarrow> 64 word \<Rightarrow> Rectangle" where
  "image_Rect x0 y0 x1 y1 =
     \<lparr>MinX = (if sint x0 > sint x1 then x1 else x0),
      MinY = (if sint y0 > sint y1 then y1 else y0),
      MaxX = (if sint x0 > sint x1 then x0 else x1),
      MaxY = (if sint y0 > sint y1 then y0 else y1)\<rparr>"

definition Rectangle_Dx :: "Rectangle \<Rightarrow> 64 word" where
  "Rectangle_Dx r = MaxX r - MinX r"

definition Rectangle_Dy :: "Rectangle \<Rightarrow> 64 word" where
  "Rectangle_Dy r = MaxY r - MinY r"

definition mul3NonNeg :: "64 word \<Rightarrow> 64 word \<Rightarrow> 64 word \<Rightarrow> 64 word" where
  "mul3NonNeg x y z =
     (if sint x < 0 \<or> sint y < 0 \<or> sint z < 0 then - 1
      else let hi = (uint x * uint y) div 2 ^ 64;
               lo = (uint x * uint y) mod 2 ^ 64
           in if hi \<noteq> 0 then - 1
              else let hi = (lo * uint z) div 2 ^ 64;
                       lo = (lo * uint z) mod 2 ^ 64
                   in if hi \<noteq> 0 then - 1
                      else let a = (word_of_int lo :: 64 word)
                           in if sint a < 0 \<or> uint a \<noteq> lo then - 1 else a)"

definition pixelBufferLength :: "64 word \<Rightarrow> Rectangle \<Rightarrow> string \<Rightarrow> 64 word outcome" where
  "pixelBufferLength bytesPerPixel r imageTypeName =
     (let totalLength = mul3NonNeg bytesPerPixel (Rectangle_Dx r) (Rectangle_Dy r)
      in if sint totalLength < 0
         then Panics (''image: New'' @ imageTypeName @ '' Rectangle has huge or negative dimensions'')
         else Returns totalLength)"

definition NewRGBA :: "(64 word \<Rightarrow> string option) \<Rightarrow> Rectangle \<Rightarrow> Image outcome" where
  "NewRGBA makeBytes r =
     (case pixelBufferLength 4 r ''RGBA'' of
        Panics msg \<Rightarrow> Panics msg
      | Returns n \<Rightarrow>
          (case makeBytes n of
             Some msg \<Rightarrow> Panics msg
           | None \<Rightarrow> Returns \<lparr>Dx = Rectangle_Dx r, Dy = Rectangle_Dy r, Pix = replicate (unat n) 0\<rparr>))"

text \<open>
  \<open>scaler dst src\<close> stands for the resampling pass \<open>draw.CatmullRom.Scale\<close>, which
  fills the new image \<open>dst\<close> from \<open>src\<close>.
\<close>

definition ResizeImage ::
  "(float64 \<Rightarrow> 64 word) \<Rightarrow> (64 word \<Rightarrow> string option) \<Rightarrow> (Image \<Rightarrow> Image \<Rightarrow> Image) \<Rightarrow>
   Image \<Rightarrow> ResizeSpec \<Rightarrow> Image outcome" where
  "ResizeImage oob makeBytes scaler src spec =
     (if f64_eq0 (Scale spec) \<and> Width spec = 0 \<and> Height spec = 0 then Returns src
      else let (dstWidth, dstHeight) = CalculateOutputSizeFromImage oob src spec
           in if dstWidth = Dx src \<and> dstHeight = Dy src then Returns src
              else case NewRGBA makeBytes (image_Rect 0 0 dstWidth dstHeight) of
                     Panics msg \<Rightarrow> Panics msg
                   | Returns dst \<Rightarrow> Returns (scaler dst src))"

section \<open>Configuration, results and statistics (internal/types)\<close>

record Config =
  InputDir :: string
  OutputDir :: string
  Scale :: float64
  Width :: "64 word"
  Height :: "64 word"
  Format :: string
  JPEGQuality :: "64 word"

record ConversionStats =
  Total :: "64 word"
  Success :: "64 word"
  Failed :: "64 word"
  Skipped :: "64 word"

record ConversionResult =
  SourcePath :: string
  OutputPath :: string
  Success :: bool
  Error :: "error option"

section \<open>The codec gateway (image loader and saver)\<close>

text \<open>
  What the program reaches through the operating system and the codec libraries is a
  record of functions: opening a file, decoding, allocating, resampling, creating a file
  and the five encoders. Each returns what its Go signature returns, an error or a value;
  the allocation of a pixel buffer can end the process instead.
\<close>

record Env =
  unicodeLower :: "string \<Rightarrow> string"
  intOutOfRange :: "float64 \<Rightarrow> 64 word"
  osOpen :: "string \<Rightarrow> error + 8 word list"
  imageDecode :: "8 word list \<Rightarrow> error + Image"
  makeBytes :: "64 word \<Rightarrow> string option"
  catmullRomScale :: "Image \<Rightarrow> Image \<Rightarrow> Image"
  osCreate :: "string \<Rightarrow> error option"
  jpegEncode :: "Image \<Rightarrow> 64 word \<Rightarrow> error option"
  pngEncode :: "Image \<Rightarrow> error option"
  webpEncode :: "Image \<Rightarrow> 64 word \<Rightarrow> error option"
  gifEncode :: "Image \<Rightarrow> error option"
  bmpEncode :: "Image \<Rightarrow> error option"

definition Load :: "Env \<Rightarrow> string \<Rightarrow> error + Image" where
  "Load env path =
     (case osOpen env path of
        Inl err \<Rightarrow> Inl (Wrap ''failed to open file'' err)
      | Inr file \<Rightarrow>
          (case imageDecode env file of
             Inl err \<Rightarrow> Inl (Wrap ''failed to decode image'' err)
           | Inr img \<Rightarrow> Inr img))"

definition wrapErr :: "string \<Rightarrow> error option \<Rightarrow> error option" where
  "wrapErr msg r = (case r of None \<Rightarrow> None | Some err \<Rightarrow> Some (Wrap msg err))"

definition saveJPEG :: "Env \<Rightarrow> Image \<Rightarrow> 64 word \<Rightarrow> error option" where
  "saveJPEG env img quality = wrapErr ''failed to encode JPEG'' (jpegEncode env img quality)"

definition savePNG :: "Env \<Rightarrow> Image \<Rightarrow> error option" where
  "savePNG env img = wrapErr ''failed to encode PNG'' (pngEncode env img)"

definition saveWebP :: "Env \<Rightarrow> Image \<Rightarrow> 64 word \<Rightarrow> error option" where
  "saveWebP env img quality = wrapErr ''failed to encode WebP'' (webpEncode env img quality)"

definition saveGIF :: "Env \<Rightarrow> Image \<Rightarrow> error option" where
  "saveGIF env img = wrapErr ''failed to encode GIF'' (gifEncode env img)"

definition saveBMP :: "Env \<Rightarrow> Image \<Rightarrow> error option" where
  "saveBMP env img = wrapErr ''failed to encode BMP'' (bmpEncode env img)"

definition Save :: "Env \<Rightarrow> Image \<Rightarrow> string \<Rightarrow> ImageFormat \<Rightarrow> 64 word \<Rightarrow> error option" where
  "Save env img path format quality =
     (case osCreate env path of
        Some err \<Rightarrow> Some (Wrap ''failed to create file'' err)
      | None \<Rightarrow>
          if format = FormatJPEG then saveJPEG env img quality
          else if format = FormatPNG then savePNG env img
          else if format = FormatWebP then saveWebP env img quality
          else if format = FormatGIF then saveGIF env img
          else if format = FormatBMP then saveBMP env img
          else Some (UnsupportedOutputFormat format))"

section \<open>The converter (internal/converter/converter.go)\<close>

record Converter =
  config :: Config
  stats :: ConversionStats

definition NewConverter :: "Config \<Rightarrow> Converter" where
  "NewConverter cfg =
     \<lparr>config = cfg, stats = \<lparr>Total = 0, ConversionStats.Success = 0, Failed = 0, Skipped = 0\<rparr>\<rparr>"

text \<open>
  \<open>ConvertImage\<close> turns every error of a step into a failed result. It has no
  \<open>recover\<close>: a panic of the resizing step is a panic of \<open>ConvertImage\<close>.
\<close>

definition ConvertImage :: "Env \<Rightarrow> Converter \<Rightarrow> string \<Rightarrow> string \<Rightarrow> ConversionResult outcome" where
  "ConvertImage env c sourcePath outputDir =
     (let result = \<lparr>SourcePath = sourcePath, OutputPath = [], Success = False, Error = None\<rparr>
      in case Load env sourcePath of
           Inl err \<Rightarrow> Returns (result\<lparr>Error := Some (Wrap ''failed to load image'' err)\<rparr>)
         | Inr img \<Rightarrow>
             let resizeSpec = \<lparr>ResizeSpec.Scale = Config.Scale (config c),
                               ResizeSpec.Width = Config.Width (config c),
                               ResizeSpec.Height = Config.Height (config c)\<rparr>
             in case ResizeImage (intOutOfRange env) (makeBytes env) (catmullRomScale env)
                       img resizeSpec of
                  Panics msg \<Rightarrow> Panics msg
                | Returns resizedImg \<Rightarrow>
                   (case (if Format (config c) \<noteq> []
                          then Inr (NormalizeFormat (unicodeLower env) (Format (config c)))
                          else DetectFormat (unicodeLower env) sourcePath) of
                      Inl err \<Rightarrow>
                        Returns (result\<lparr>Error := Some (Wrap ''failed to detect format'' err)\<rparr>)
                    | Inr outputFormat \<Rightarrow>
                        let outputPath = GenerateOutputPath sourcePath outputDir outputFormat;
                            result = result\<lparr>OutputPath := outputPath\<rparr>;
                            quality = (if JPEGQuality (config c) = 0 then 85
                                       else JPEGQuality (config c))
                        in case Save env resizedImg outputPath outputFormat quality of
                             Some err \<Rightarrow>
                               Returns (result\<lparr>Error := Some (Wrap ''failed to save image'' err)\<rparr>)
                           | None \<Rightarrow> Returns (result\<lparr>Success := True\<rparr>)))"

definition GetStats :: "Converter \<Rightarrow> ConversionStats" where
  "GetStats c = stats c"

text \<open>
  \<open>UpdateStats\<close> and \<open>IncrementSkipped\<close> run under the statistics mutex: each is one
  atomic step on the converter.
\<close>

definition UpdateStats :: "Converter \<Rightarrow> ConversionResult \<Rightarrow> Converter" where
  "UpdateStats c result =
     (let st = (stats c)\<lparr>Total := Total (stats c) + 1\<rparr>
      in if ConversionResult.Success result
         then c\<lparr>stats := st\<lparr>ConversionStats.Success := ConversionStats.Success st + 1\<rparr>\<rparr>
         else c\<lparr>stats := st\<lparr>Failed := Failed st + 1\<rparr>\<rparr>)"

definition IncrementSkipped :: "Converter \<Rightarrow> Converter" where
  "IncrementSkipped c =
     (let st = (stats c)\<lparr>Total := Total (stats c) + 1\<rparr>
      in c\<lparr>stats := st\<lparr>Skipped := Skipped st + 1\<rparr>\<rparr>)"

record FileSystemScanner =
  ScanDirectory :: "string \<Rightarrow> error + string list"
  IsImageFileOf :: "string \<Rightarrow> bool"

text \<open>The first loop of \<open>ProcessDirectory\<close>: image files are collected, the others counted.\<close>

fun partitionFiles ::
  "(string \<Rightarrow> bool) \<Rightarrow> string list \<Rightarrow> Converter \<Rightarrow> string list \<Rightarrow> Converter \<times> string list" where
  "partitionFiles isImage [] c imageFiles = (c, imageFiles)"
| "partitionFiles isImage (file # files) c imageFiles =
     (if isImage file then partitionFiles isImage files c (imageFiles @ [file])
      else partitionFiles isImage files (IncrementSkipped c) imageFiles)"

text \<open>
  The second loop starts one goroutine per image file. A goroutine converts its file, which
  touches nothing shared, and then folds the result into the statistics under the mutex.
  The state of the pool is the multiset of files whose goroutine has not finished, the
  converter, and the results in the order of completion; a step completes any one pending
  goroutine, so the runs of \<open>workerStep\<close> are the interleavings the scheduler may choose.
  The semaphore only bounds how many conversions are in flight. A goroutine whose
  conversion panics ends the process, whatever the other goroutines were doing.
\<close>

type_synonym pool = "string multiset \<times> Converter \<times> ConversionResult list"

inductive workerStep :: "Env \<Rightarrow> string \<Rightarrow> pool \<Rightarrow> pool outcome \<Rightarrow> bool" where
  finish: "f \<in># pending \<Longrightarrow> ConvertImage env c f outputDir = Returns result \<Longrightarrow>
     workerStep env outputDir (pending, c, done)
       (Returns (pending - {#f#}, UpdateStats c result, done @ [result]))"
| panic: "f \<in># pending \<Longrightarrow> ConvertImage env c f outputDir = Panics msg \<Longrightarrow>
     workerStep env outputDir (pending, c, done) (Panics msg)"

text \<open>\<open>wg.Wait()\<close> returns when no goroutine is pending.\<close>

inductive waitGroup ::
  "Env \<Rightarrow> string \<Rightarrow> pool \<Rightarrow> (Converter \<times> ConversionResult list) outcome \<Rightarrow> bool" where
  drained: "waitGroup env outputDir ({#}, c, done) (Returns (c, done))"
| running: "workerStep env outputDir p (Returns p') \<Longrightarrow> waitGroup env outputDir p' r \<Longrightarrow>
     waitGroup env outputDir p r"
| aborted: "workerStep env outputDir p (Panics msg) \<Longrightarrow> waitGroup env outputDir p (Panics msg)"

text \<open>
  \<open>ProcessDirectory\<close> relates the converter before the call to the outcome of the call:
  it returns an error, the converter after it and the conversion results in completion
  order, or it does not return because a goroutine panicked.
\<close>

inductive ProcessDirectory ::
  "Env \<Rightarrow> FileSystemScanner \<Rightarrow> Converter \<Rightarrow> string \<Rightarrow> string \<Rightarrow>
   (error option \<times> Converter \<times> ConversionResult list) outcome \<Rightarrow> bool" where
  scanFailed: "ScanDirectory fsManager inputDir = Inl err \<Longrightarrow>
     ProcessDirectory env fsManager c inputDir outputDir
       (Returns (Some (Wrap ''failed to scan directory'' err), c, []))"
| processed: "ScanDirectory fsManager inputDir = Inr files \<Longrightarrow>
     partitionFiles (IsImageFileOf fsManager) files c [] = (c1, imageFiles) \<Longrightarrow>
     waitGroup env outputDir (mset imageFiles, c1, []) (Returns (c2, results)) \<Longrightarrow>
     ProcessDirectory env fsManager c inputDir outputDir (Returns (None, c2, results))"
| panicked: "ScanDirectory fsManager inputDir = Inr files \<Longrightarrow>
     partitionFiles (IsImageFileOf fsManager) files c [] = (c1, imageFiles) \<Longrightarrow>
     waitGroup env outputDir (mset imageFiles, c1, []) (Panics msg) \<Longrightarrow>
     ProcessDirectory env fsManager c inputDir outputDir (Panics msg)"

text \<open>
  The sequence of statistics operations of a run, for the invariant: the mutex makes every
  interleaving of the goroutines a sequence of these two operations.
\<close>

datatype statsOp = Update ConversionResult | Skip

fun applyOp :: "Converter \<Rightarrow> statsOp \<Rightarrow> Converter" where
  "applyOp c (Update r) = UpdateStats c r"
| "applyOp c Skip = IncrementSkipped c"

section \<open>Predicates used in the statements\<close>

definition statsInvariant :: "ConversionStats \<Rightarrow> bool" where
  "statsInvariant st =
     (Total st = ConversionStats.Success st + Failed st + Skipped st)"

definition noSep :: "string \<Rightarrow> bool" where
  "noSep s = (\<forall>c \<in> set s. \<not> isPathSeparator c)"

text \<open>
  The steps of \<open>ConvertImage\<close> after loading, named for the statements: the resizing of a
  loaded image under the configuration, the format-resolution step and the quality handed
  to the saver.
\<close>

definition resized :: "Env \<Rightarrow> Converter \<Rightarrow> Image \<Rightarrow> Image outcome" where
  "resized env c img =
     ResizeImage (intOutOfRange env) (makeBytes env) (catmullRomScale env) img
       \<lparr>ResizeSpec.Scale = Config.Scale (config c), ResizeSpec.Width = Config.Width (config c),
        ResizeSpec.Height = Config.Height (config c)\<rparr>"

definition resolvedFormat :: "Env \<Rightarrow> Converter \<Rightarrow> string \<Rightarrow> error + ImageFormat" where
  "resolvedFormat env c sourcePath =
     (if Format (config c) \<noteq> []
      then Inr (NormalizeFormat (unicodeLower env) (Format (config c)))
      else DetectFormat (unicodeLower env) sourcePath)"

definition savedQuality :: "Converter \<Rightarrow> 64 word" where
  "savedQuality c = (if JPEGQuality (config c) = 0 then 85 else JPEGQuality (config c))"

text \<open>A conversion that returns, and one that returns a success.\<close>

definition returns :: "Env \<Rightarrow> Converter \<Rightarrow> string \<Rightarrow> string \<Rightarrow> bool" where
  "returns env c out p =
     (case ConvertImage env c p out of Returns r \<Rightarrow> True | Panics msg \<Rightarrow> False)"

definition converts :: "Env \<Rightarrow> Converter \<Rightarrow> string \<Rightarrow> string \<Rightarrow> bool" where
  "converts env c out p =
     (case ConvertImage env c p out of
        Returns r \<Rightarrow> ConversionResult.Success r
      | Panics msg \<Rightarrow> False)"

text \<open>What a pool that has drained has done with the goroutines that were pending.\<close>

definition poolSpec :: "Env \<Rightarrow> string \<Rightarrow> pool \<Rightarrow> Converter \<times> ConversionResult list \<Rightarrow> bool" where
  "poolSpec env out p r =
     (case p of (pending, c, done) \<Rightarrow> case r of (c', done') \<Rightarrow>
        config c' = config c \<and>
        image_mset Returns (mset done') =
          image_mset Returns (mset done) + image_mset (\<lambda>f. ConvertImage env c f out) pending \<and>
        Total (stats c') = Total (stats c) + of_nat (size pending) \<and>
        ConversionStats.Success (stats c') = ConversionStats.Success (stats c) +
          of_nat (size (filter_mset (converts env c out) pending)) \<and>
        Failed (stats c') = Failed (stats c) +
          of_nat (size (filter_mset (\<lambda>f. \<not> converts env c out f) pending)) \<and>
        Skipped (stats c') = Skipped (stats c))"

text \<open>
  The three kinds of input file of a batch: a file the classifier rejects, an image file
  that does not load, and an image file that loads.
\<close>

definition decodes :: "Env \<Rightarrow> string \<Rightarrow> bool" where
  "decodes env p = (case Load env p of Inl err \<Rightarrow> False | Inr img \<Rightarrow> True)"



definition validImage :: "Env \<Rightarrow> FileSystemScanner \<Rightarrow> string \<Rightarrow> bool" where
  "validImage env fsManager p = (IsImageFileOf fsManager p \<and> decodes env p)"

text \<open>The write side of the codec gateway accepts every image.\<close>

definition writesSucceed :: "Env \<Rightarrow> bool" where
  "writesSucceed env =
     ((\<forall>path. osCreate env path = None) \<and>
      (\<forall>img q. jpegEncode env img q = None) \<and> (\<forall>img. pngEncode env img = None) \<and>
      (\<forall>img q. webpEncode env img q = None) \<and> (\<forall>img. gifEncode env img = None) \<and>
      (\<forall>img. bmpEncode env img = None))"

section \<open>A sample platform and a sample batch\<close>

text \<open>
  On amd64 the conversion of a \<open>float64\<close> that is not an \<open>int\<close> yields the smallest
  \<open>int\<close>.
\<close>

definition amd64OutOfRange :: "float64 \<Rightarrow> 64 word" where
  "amd64OutOfRange f = 0x8000000000000000"

text \<open>
  An input directory with a 100 by 100 image \<open>a.png\<close>, a text file \<open>b.txt\<close> and a file
  \<open>c.png\<close> that does not decode; every allocation and every write succeeds. Outside
  the batch, \<open>d.dat\<close> holds the bytes of \<open>a.png\<close> under a name that is not an
  image's.
\<close>

definition sampleEnv :: Env where
  "sampleEnv =
     \<lparr>unicodeLower = (\<lambda>s. s),
      intOutOfRange = amd64OutOfRange,
      osOpen = (\<lambda>p. if p = ''in/a.png'' then Inr [1]
                     else if p = ''in/b.txt'' then Inr [2]
                     else if p = ''in/c.png'' then Inr [3]
                     else if p = ''in/d.dat'' then Inr [1]
                     else Inl (External ''no such file or directory'')),
      imageDecode = (\<lambda>b. if b = [1] then Inr \<lparr>Dx = 100, Dy = 100, Pix = []\<rparr>
                          else Inl (External ''image: unknown format'')),
      makeBytes = (\<lambda>n. None),
      catmullRomScale = (\<lambda>dst src. dst),
      osCreate = (\<lambda>p. None),
      jpegEncode = (\<lambda>img q. None),
      pngEncode = (\<lambda>img. None),
      webpEncode = (\<lambda>img q. None),
      gifEncode = (\<lambda>img. None),
      bmpEncode = (\<lambda>img. None)\<rparr>"

definition sampleFiles :: "string list" where
  "sampleFiles = [''in/a.png'', ''in/b.txt'', ''in/c.png'']"

definition sampleScanner :: FileSystemScanner where
  "sampleScanner =
     \<lparr>ScanDirectory = (\<lambda>d. if d = ''in'' then Inr sampleFiles
                              else Inl (External ''no such file or directory'')),
      IsImageFileOf = IsImageFile (\<lambda>s. s)\<rparr>"

definition sampleConfig :: Config where
  "sampleConfig =
     \<lparr>InputDir = ''in'', OutputDir = ''out'', Config.Scale = Finite (1 / 2),
      Config.Width = 0, Config.Height = 0, Format = ''jpeg'', JPEGQuality = 85\<rparr>"

text \<open>The same configuration with an output format the saver does not know.\<close>

definition tiffConfig :: Config where
  "tiffConfig = sampleConfig\<lparr>Format := ''tiff''\<rparr>"

text \<open>The same configuration with no output format: the source format is kept.\<close>

definition keepFormatConfig :: Config where
  "keepFormatConfig = sampleConfig\<lparr>Format := []\<rparr>"



section \<open>Rounding to binary64\<close>

lemma bitlen_powi_bounds:
  assumes "0 < (p::int)"
  shows "(2::rat) powi (bitlen p - 1) \<le> of_int p" "of_int p < (2::rat) powi bitlen p"
proof -
  have b: "2 ^ nat (bitlen p - 1) \<le> p" "p < 2 ^ nat (bitlen p)"
    using bitlen_bounds [OF assms] by auto
  have ge1: "1 \<le> bitlen p"
    using assms bitlen_nonneg [of p] bitlen_eq_zero_iff [of p] by linarith
  have "(2::rat) powi (bitlen p - 1) = of_int (2 ^ nat (bitlen p - 1))"
    using ge1 by (simp add: power_int_def)
  also have "\<dots> \<le> of_int p"
    using b(1) by (simp only: of_int_le_iff)
  finally show "(2::rat) powi (bitlen p - 1) \<le> of_int p" .
  have "(of_int p :: rat) < of_int (2 ^ nat (bitlen p))"
    using b(2) by (simp only: of_int_less_iff)
  also have "\<dots> = (2::rat) powi bitlen p"
    using ge1 by (simp add: power_int_def)
  finally show "of_int p < (2::rat) powi bitlen p" .
qed

lemma ilog2_bounds:
  assumes "0 < x"
  shows "2 powi (ilog2 x) \<le> x" "x < 2 powi (ilog2 x + 1)"
proof -
  obtain p q where pq: "quotient_of x = (p, q)" by (cases "quotient_of x")
  have q: "0 < q" using pq by (rule quotient_of_denom_pos)
  have x: "x = of_int p / of_int q" using pq by (rule quotient_of_div)
  have p: "0 < p" using assms q x by (simp add: zero_less_divide_iff)
  let ?k = "bitlen p - bitlen q"
  note bp = bitlen_powi_bounds [OF p] and bq = bitlen_powi_bounds [OF q]
  have qpos: "(0::rat) < of_int q" using q by simp
  have lo: "2 powi (?k - 1) \<le> x"
  proof -
    have "2 powi (?k - 1) * of_int q \<le> 2 powi (?k - 1) * (2::rat) powi bitlen q"
      using bq(2) by (intro mult_left_mono) simp_all
    also have "\<dots> = 2 powi (bitlen p - 1)"
      by (simp flip: power_int_add)
    also have "\<dots> \<le> of_int p" by (rule bp(1))
    finally show ?thesis
      using qpos by (simp add: x pos_le_divide_eq)
  qed
  have hi: "x < 2 powi (?k + 1)"
  proof -
    have "of_int p < (2::rat) powi bitlen p" by (rule bp(2))
    also have "\<dots> = 2 powi (?k + 1) * 2 powi (bitlen q - 1)"
      by (simp flip: power_int_add)
    also have "\<dots> \<le> 2 powi (?k + 1) * of_int q"
      using bq(1) by (intro mult_left_mono) simp_all
    finally show ?thesis
      using qpos by (simp add: x pos_divide_less_eq)
  qed
  have il: "ilog2 x = (if 2 powi ?k \<le> x then ?k else ?k - 1)"
    by (simp add: ilog2_def pq Let_def)
  show "2 powi (ilog2 x) \<le> x"
    using lo by (simp add: il)
  show "x < 2 powi (ilog2 x + 1)"
    using hi by (auto simp add: il not_le)
qed

lemma roundEven_of_int [simp]: "roundEven (of_int n) = n"
  by (simp add: roundEven_def)

lemma roundEven_err: "\<bar>of_int (roundEven x) - x\<bar> \<le> 1 / 2"
proof -
  have "of_int \<lfloor>x\<rfloor> \<le> x" "x < of_int \<lfloor>x\<rfloor> + 1"
    by linarith+
  then show ?thesis
    by (auto simp add: roundEven_def Let_def abs_le_iff)
qed

lemma roundEven_le: "x \<le> of_int n \<Longrightarrow> roundEven x \<le> n"
proof -
  assume "x \<le> of_int n"
  moreover have "of_int (roundEven x) \<le> x + 1 / 2"
    using roundEven_err [of x] by linarith
  ultimately have "(of_int (roundEven x) :: rat) < of_int n + 1" by linarith
  then have "(of_int (roundEven x) :: rat) < of_int (n + 1)" by simp
  then have "roundEven x < n + 1" by (simp only: of_int_less_iff)
  then show ?thesis by simp
qed

lemma roundEven_ge: "of_int n \<le> x \<Longrightarrow> n \<le> roundEven x"
proof -
  assume "of_int n \<le> x"
  moreover have "x - 1 / 2 \<le> of_int (roundEven x)"
    using roundEven_err [of x] by linarith
  ultimately have "(of_int n :: rat) - 1 < of_int (roundEven x)" by linarith
  then have "(of_int (n - 1) :: rat) < of_int (roundEven x)" by simp
  then have "n - 1 < roundEven x" by (simp only: of_int_less_iff)
  then show ?thesis by simp
qed

lemma powi2_less_iff: "(2::rat) powi a < 2 powi b \<longleftrightarrow> a < b"
proof
  assume "(2::rat) powi a < 2 powi b"
  show "a < b"
  proof (rule ccontr)
    assume "\<not> a < b"
    then have "(2::rat) powi b \<le> 2 powi a"
      by (intro power_int_increasing) simp_all
    with \<open>(2::rat) powi a < 2 powi b\<close> show False by simp
  qed
next
  assume "a < b"
  then show "(2::rat) powi a < 2 powi b"
    by (intro power_int_strict_increasing) simp_all
qed

lemma ilog2_ge:
  assumes "0 < x" "2 powi k \<le> x"
  shows "k \<le> ilog2 x"
proof -
  have "(2::rat) powi k < 2 powi (ilog2 x + 1)"
    using assms(2) ilog2_bounds(2) [OF assms(1)] by linarith
  then have "k < ilog2 x + 1"
    by (simp only: powi2_less_iff)
  then show ?thesis by simp
qed

lemma ilog2_less:
  assumes "0 < x" "x < 2 powi k"
  shows "ilog2 x < k"
proof -
  have "(2::rat) powi ilog2 x < 2 powi k"
    using assms(2) ilog2_bounds(1) [OF assms(1)] by linarith
  then show ?thesis
    by (simp only: powi2_less_iff)
qed

text \<open>
  In the normal range the rounded value is finite and its error is at most half a unit in
  the last place: a relative error of at most \<open>2\<^sup>-\<^sup>5\<^sup>3\<close>.
\<close>

lemma round_f64_normal:
  assumes lo: "2 powi (- 1022) \<le> x" and hi: "x < 2 powi 1023"
  shows "\<exists>y. round_f64 x = Finite y \<and> \<bar>y - x\<bar> \<le> x / 2 ^ 53 \<and> 0 \<le> y"
proof -
  have pos: "0 < x"
    using lo by (rule less_le_trans [rotated]) simp
  define e where "e = ilog2 x"
  define u :: rat where "u = 2 powi (e - 52)"
  define n where "n = roundEven (x / u)"
  have e_lo: "- 1022 \<le> e" unfolding e_def using pos lo by (rule ilog2_ge)
  have e_hi: "e < 1023" unfolding e_def using pos hi by (rule ilog2_less)
  have upos: "0 < u" by (simp add: u_def)
  have xe: "2 powi e \<le> x" "x < 2 powi (e + 1)"
    unfolding e_def using ilog2_bounds [OF pos] by simp_all
  have u53: "u * 2 ^ 53 = 2 powi (e + 1)" and u52: "u * 2 ^ 52 = 2 powi e"
    by (simp_all add: u_def power_int_add power_int_diff)
  have q_lo: "of_int (2 ^ 52) \<le> x / u"
    using xe(1) upos u52 by (simp add: pos_le_divide_eq mult.commute)
  have q_hi: "x / u \<le> of_int (2 ^ 53)"
    using xe(2) upos u53 by (simp add: pos_divide_le_eq mult.commute)
  have n_lo: "2 ^ 52 \<le> n" unfolding n_def using q_lo by (rule roundEven_ge)
  have n_hi: "n \<le> 2 ^ 53" unfolding n_def using q_hi by (rule roundEven_le)
  have err: "\<bar>of_int n * u - x\<bar> \<le> u / 2"
  proof -
    have "of_int n * u - x = (of_int n - x / u) * u"
      using upos by (simp add: left_diff_distrib)
    then have "\<bar>of_int n * u - x\<bar> = \<bar>of_int n - x / u\<bar> * u"
      using upos by (simp add: abs_mult)
    also have "\<dots> \<le> (1 / 2) * u"
      using roundEven_err [of "x / u"] upos unfolding n_def
      by (intro mult_right_mono) simp_all
    finally show ?thesis by simp
  qed
  have half: "u / 2 \<le> x / 2 ^ 53"
  proof -
    have "u / 2 = 2 powi e / 2 ^ 53"
      using u52 [symmetric] by simp
    also have "\<dots> \<le> x / 2 ^ 53"
      using xe(1) by (simp add: divide_right_mono)
    finally show ?thesis .
  qed
  have ypos: "0 \<le> of_int n * u"
    using n_lo upos by simp
  have ylt: "of_int n * u < 2 powi 1024"
  proof -
    have "(of_int n :: rat) \<le> of_int (2 ^ 53)"
      using n_hi by (simp only: of_int_le_iff)
    then have "of_int n * u \<le> of_int (2 ^ 53) * u"
      using upos by (intro mult_right_mono) simp_all
    also have "\<dots> = 2 powi (e + 1)"
      using u53 by (simp add: mult.commute)
    also have "\<dots> < 2 powi 1024"
      using e_hi by (simp only: powi2_less_iff)
    finally show ?thesis .
  qed
  have "round_f64 x = Finite (of_int n * u)"
    using pos e_lo ypos ylt
    by (simp add: round_f64_def Let_def e_def [symmetric] max_def u_def [symmetric]
          n_def [symmetric] abs_of_nonneg not_le del: power_int_numeral)
  then show ?thesis
    using err half ypos by auto
qed

lemma round_f64_int:
  assumes "0 \<le> n" "n \<le> 2 ^ 53"
  shows "round_f64 (of_int n) = Finite (of_int n)"
proof (cases "n = 0")
  case True
  then show ?thesis by (simp add: round_f64_def)
next
  case False
  define x :: rat where "x = of_int n"
  define e where "e = ilog2 x"
  define u :: rat where "u = 2 powi (e - 52)"
  have n1: "1 \<le> n" using assms(1) False by simp
  have pos: "0 < x" using n1 by (simp add: x_def)
  have "(2::rat) powi 0 \<le> x" using n1 by (simp add: x_def)
  then have e_lo: "0 \<le> e" unfolding e_def using pos ilog2_ge by blast
  have "x \<le> 2 ^ 53"
    using assms(2) unfolding x_def by (metis of_int_le_iff of_int_numeral of_int_power)
  then have x53: "x \<le> 2 powi 53" by simp
  then have "x < 2 powi 54" by (rule le_less_trans) simp
  then have "e < 54" unfolding e_def using pos ilog2_less by blast
  then have e_hi: "e \<le> 53" by simp
  have upos: "0 < u" by (simp add: u_def)
  have xe: "2 powi e \<le> x"
    unfolding e_def using ilog2_bounds(1) [OF pos] .
  have "\<exists>m. x / u = of_int m"
  proof (cases "e \<le> 52")
    case True
    have "x / u = x * 2 powi (52 - e)"
      by (simp add: u_def power_int_diff)
    also have "\<dots> = of_int (n * 2 ^ nat (52 - e))"
      using True by (simp add: x_def power_int_def)
    finally show ?thesis by blast
  next
    case False
    then have e53: "e = 53" using e_hi by simp
    then have "x = 2 powi 53" using xe x53 by simp
    then have "x / u = of_int (2 ^ 52)"
      by (simp add: u_def e53)
    then show ?thesis by blast
  qed
  then obtain m where m: "x / u = of_int m" by blast
  have "of_int (roundEven (x / u)) * u = (x / u) * u"
    by (simp add: m)
  then have y: "of_int (roundEven (x / u)) * u = x"
    using upos by simp
  have "\<bar>x\<bar> < 2 powi 1024"
    using pos x53 by simp
  then have "round_f64 x = Finite x"
    using pos e_lo
    by (simp add: round_f64_def Let_def e_def [symmetric] max_def u_def [symmetric] y not_le
          del: power_int_numeral)
  then show ?thesis by (simp add: x_def)
qed

lemma f64_of_int_exact:
  "0 \<le> sint n \<Longrightarrow> sint n \<le> 2 ^ 53 \<Longrightarrow> f64_of_int n = Finite (of_int (sint n))"
  unfolding f64_of_int_def by (rule round_f64_int)

lemma roundHalfAway_of_int [simp]: "roundHalfAway (of_int n) = n"
proof -
  have "\<lfloor>rat_of_int n + 1 / 2\<rfloor> = n" "\<lfloor>- rat_of_int n + 1 / 2\<rfloor> = - n"
    by linarith+
  then show ?thesis by (simp add: roundHalfAway_def)
qed

lemma truncToZero_of_int [simp]: "truncToZero (of_int n) = n"
  by (simp add: truncToZero_def)

lemma int_of_f64_of_int:
  "- (2 ^ 63) \<le> n \<Longrightarrow> n < 2 ^ 63 \<Longrightarrow>
     int_of_f64 oob (Finite (of_int n)) = word_of_int n"
  by (simp add: int_of_f64_def)

lemma sint_word_of_int_64:
  "- (2 ^ 63) \<le> k \<Longrightarrow> k < 2 ^ 63 \<Longrightarrow> sint (word_of_int k :: 64 word) = k"
  by (simp add: sint_sbintrunc' signed_take_bit_int_eq_self)

lemma sint_int_of_f64_Round:
  "- (2 ^ 63) \<le> roundHalfAway q \<Longrightarrow> roundHalfAway q < 2 ^ 63 \<Longrightarrow>
     sint (int_of_f64 oob (math_Round (Finite q))) = roundHalfAway q"
  by (simp add: int_of_f64_of_int sint_word_of_int_64)

lemma roundHalfAway_nonneg: "0 \<le> q \<Longrightarrow> roundHalfAway q = \<lfloor>q + 1 / 2\<rfloor>"
  by (simp add: roundHalfAway_def)

lemma round_f64_quotient:
  assumes "0 < a" "a \<le> 2 ^ 53" "0 < b" "b \<le> 2 ^ 53"
  shows "\<exists>s. round_f64 (of_int b / of_int a) = Finite s
           \<and> \<bar>s - of_int b / of_int a\<bar> \<le> (of_int b / of_int a) / 2 ^ 53
           \<and> 1 / 2 ^ 54 \<le> s \<and> s \<le> 2 ^ 54"
proof -
  define x :: rat where "x = of_int b / of_int a"
  have a: "(1::rat) \<le> of_int a" "(of_int a :: rat) \<le> 2 ^ 53"
    using assms(1,2) by simp_all
  have b: "(1::rat) \<le> of_int b" "(of_int b :: rat) \<le> 2 ^ 53"
    using assms(3,4) by simp_all
  have x_lo: "1 / 2 ^ 53 \<le> x"
  proof -
    have "1 / 2 ^ 53 \<le> 1 / (of_int a :: rat)"
      using a by (intro divide_left_mono) simp_all
    also have "\<dots> \<le> x"
      unfolding x_def using a b by (intro divide_right_mono) simp_all
    finally show ?thesis .
  qed
  have x_hi: "x \<le> 2 ^ 53"
  proof -
    have "x \<le> of_int b / 1"
      unfolding x_def using a b by (intro divide_left_mono) simp_all
    then show ?thesis using b by simp
  qed
  have "2 powi (- 1022) \<le> x"
    using x_lo by (rule order_trans [rotated]) simp
  moreover have "x < 2 powi 1023"
    using x_hi by (rule le_less_trans) simp
  ultimately obtain s where s: "round_f64 x = Finite s" "\<bar>s - x\<bar> \<le> x / 2 ^ 53"
    using round_f64_normal by blast
  have "x - x / 2 ^ 53 \<le> s" "s \<le> x + x / 2 ^ 53"
    using s(2) by linarith+
  then have "1 / 2 ^ 54 \<le> s" "s \<le> 2 ^ 54"
    using x_lo x_hi by simp_all
  then show ?thesis
    using s unfolding x_def by blast
qed

lemma round_f64_product:
  assumes "0 < c" "c \<le> 2 ^ 53" "1 / 2 ^ 54 \<le> s" "s \<le> 2 ^ 54"
  shows "\<exists>p. round_f64 (of_int c * s) = Finite p
           \<and> \<bar>p - of_int c * s\<bar> \<le> (of_int c * s) / 2 ^ 53 \<and> 0 \<le> p"
proof -
  have c: "(1::rat) \<le> of_int c" "(of_int c :: rat) \<le> 2 ^ 53"
    using assms(1,2) by simp_all
  have spos: "0 < s" using assms(3) by (rule less_le_trans [rotated]) simp
  have "1 * s \<le> of_int c * s"
    using c(1) spos by (intro mult_right_mono) simp_all
  then have "s \<le> of_int c * s" by simp
  with assms(3) have lo: "1 / 2 ^ 54 \<le> of_int c * s"
    by (rule order_trans)
  have "of_int c * s \<le> 2 ^ 53 * 2 ^ 54"
    using c assms(4) spos by (intro mult_mono) simp_all
  then have hi: "of_int c * s \<le> 2 ^ 107" by simp
  have "2 powi (- 1022) \<le> of_int c * s"
    using lo by (rule order_trans [rotated]) simp
  moreover have "of_int c * s < 2 powi 1023"
    using hi by (rule le_less_trans) simp
  ultimately show ?thesis
    using round_f64_normal by blast
qed

section \<open>Error analysis of the geometry calculator\<close>

text \<open>Two roundings in a row: the quotient, then the product.\<close>

lemma two_roundings:
  fixes p q r :: rat
  assumes "0 \<le> r" "\<bar>q - r\<bar> \<le> r / 2 ^ 53" "\<bar>p - q\<bar> \<le> q / 2 ^ 53"
  shows "\<bar>p - r\<bar> \<le> r / 2 ^ 51"
proof -
  have "q \<le> r + r / 2 ^ 53" "r - r / 2 ^ 53 \<le> q"
    using assms(2) by linarith+
  moreover have "p \<le> q + q / 2 ^ 53" "q - q / 2 ^ 53 \<le> p"
    using assms(3) by linarith+
  ultimately have "p - r \<le> r / 2 ^ 51" "- (r / 2 ^ 51) \<le> p - r"
    using assms(1) by simp_all
  then show ?thesis by linarith
qed

lemma nearest_integer:
  fixes p r :: rat
  assumes a: "0 < a" and r: "r = of_int m / of_int a"
      and err: "\<bar>p - r\<bar> \<le> e" and small: "2 * of_int a * e < 1"
  shows "\<bar>of_int \<lfloor>p + 1 / 2\<rfloor> - r\<bar> \<le> 1 / 2"
proof -
  define d where "d = \<lfloor>p + 1 / 2\<rfloor>"
  define N where "N = 2 * a * d - 2 * m"
  have apos: "(0::rat) < of_int a" using a by simp
  have d: "of_int d \<le> p + 1 / 2" "p + 1 / 2 < of_int d + 1"
    unfolding d_def by linarith+
  have dr: "\<bar>of_int d - r\<bar> \<le> 1 / 2 + e"
    using d err by linarith
  have N: "(of_int N :: rat) = 2 * of_int a * (of_int d - r)"
    using apos by (simp add: N_def r right_diff_distrib)
  have "\<bar>of_int N :: rat\<bar> = 2 * of_int a * \<bar>of_int d - r\<bar>"
    using apos by (simp add: N abs_mult)
  also have "\<dots> \<le> 2 * of_int a * (1 / 2 + e)"
    using apos dr by (intro mult_left_mono) simp_all
  also have "\<dots> < of_int a + 1"
    using small by (simp add: distrib_left)
  finally have "(of_int \<bar>N\<bar> :: rat) < of_int (a + 1)" by simp
  then have "\<bar>N\<bar> < a + 1" by (simp only: of_int_less_iff)
  then have "\<bar>N\<bar> \<le> a" by simp
  then have "(of_int \<bar>N\<bar> :: rat) \<le> of_int a" by (simp only: of_int_le_iff)
  then have "2 * of_int a * \<bar>of_int d - r\<bar> \<le> (of_int a :: rat)"
    using apos by (simp add: N abs_mult)
  then have "\<bar>of_int d - r\<bar> \<le> 1 / 2"
    using apos by (simp add: field_simps)
  then show ?thesis by (simp add: d_def)
qed

lemma floor_half_eq:
  fixes p :: rat
  assumes "\<bar>p - of_int b\<bar> < 1 / 2"
  shows "\<lfloor>p + 1 / 2\<rfloor> = b"
  using assms by (intro floor_unique) linarith+

lemma floor_half_le:
  fixes p :: rat
  assumes "p < of_int b + 1 / 2"
  shows "\<lfloor>p + 1 / 2\<rfloor> \<le> b"
proof -
  have "p + 1 / 2 < of_int (b + 1)" using assms by simp
  then have "\<lfloor>p + 1 / 2\<rfloor> < b + 1" by (simp only: floor_less_iff)
  then show ?thesis by simp
qed

lemma scale_abs_diff:
  fixes A B s :: rat
  assumes "0 < A"
  shows "A * \<bar>s - B / A\<bar> = \<bar>A * s - B\<bar>"
proof -
  have "A * s - B = A * (s - B / A)"
    using assms by (simp add: right_diff_distrib)
  then show ?thesis
    using assms by (simp add: abs_mult)
qed

lemma limiting_dim_rat:
  fixes s p :: rat
  assumes "0 < A" "0 < B" "B < 2 ^ 50"
      and s: "\<bar>s - of_int B / of_int A\<bar> \<le> (of_int B / of_int A) / 2 ^ 53"
      and p: "\<bar>p - of_int A * s\<bar> \<le> (of_int A * s) / 2 ^ 53"
  shows "\<bar>p - of_int B\<bar> < 1 / 2"
proof -
  have Apos: "(0::rat) < of_int A" using assms(1) by simp
  have Bpos: "(0::rat) \<le> of_int B" using assms(2) by simp
  have Blt: "(of_int B :: rat) < 2 ^ 50"
    using assms(3) by simp
  have "of_int A * \<bar>s - of_int B / of_int A\<bar> \<le> of_int A * ((of_int B / of_int A) / 2 ^ 53)"
    using Apos s by (intro mult_left_mono) simp_all
  then have q: "\<bar>of_int A * s - of_int B\<bar> \<le> of_int B / 2 ^ 53"
    using Apos by (simp add: scale_abs_diff)
  have "\<bar>p - of_int B\<bar> \<le> of_int B / 2 ^ 51"
    using Bpos q p by (rule two_roundings)
  then show ?thesis
    using Blt by simp
qed

lemma other_dim_rat:
  fixes s s2 p :: rat
  assumes "0 < A" "0 < B" "B < 2 ^ 50"
      and s2: "\<bar>s2 - of_int B / of_int A\<bar> \<le> (of_int B / of_int A) / 2 ^ 53"
      and s: "0 \<le> s" "s \<le> s2"
      and p: "\<bar>p - of_int A * s\<bar> \<le> (of_int A * s) / 2 ^ 53"
  shows "p < of_int B + 1 / 2"
proof -
  have Apos: "(0::rat) < of_int A" using assms(1) by simp
  have Bpos: "(0::rat) \<le> of_int B" using assms(2) by simp
  have Blt: "(of_int B :: rat) < 2 ^ 50"
    using assms(3) by simp
  have "of_int A * \<bar>s2 - of_int B / of_int A\<bar> \<le> of_int A * ((of_int B / of_int A) / 2 ^ 53)"
    using Apos s2 by (intro mult_left_mono) simp_all
  then have q2: "\<bar>of_int A * s2 - of_int B\<bar> \<le> of_int B / 2 ^ 53"
    using Apos by (simp add: scale_abs_diff)
  have q: "of_int A * s \<le> of_int A * s2"
    using Apos s(2) by (intro mult_left_mono) simp_all
  define Q :: rat where "Q = of_int A * s2"
  define Bq :: rat where "Bq = of_int B"
  have "p \<le> of_int A * s + (of_int A * s) / 2 ^ 53"
    using p by linarith
  also have "\<dots> \<le> Q + Q / 2 ^ 53"
    unfolding Q_def using q by (intro add_mono divide_right_mono) simp_all
  finally have 1: "p \<le> Q + Q / 2 ^ 53" .
  have 2: "Q \<le> Bq + Bq / 2 ^ 53"
    using q2 unfolding Q_def Bq_def by linarith
  have 3: "Bq < 2 ^ 50" "0 \<le> Bq"
    using Blt Bpos unfolding Bq_def by simp_all
  have "p < Bq + 1 / 2"
    using 1 2 3 by simp
  then show ?thesis
    by (simp only: Bq_def)
qed

lemma f64_div_dims:
  assumes "0 < sint a" "sint a \<le> 2 ^ 53" "0 < sint b" "sint b \<le> 2 ^ 53"
  shows "\<exists>s. f64_div (f64_of_int b) (f64_of_int a) = Finite s
           \<and> \<bar>s - of_int (sint b) / of_int (sint a)\<bar> \<le> (of_int (sint b) / of_int (sint a)) / 2 ^ 53
           \<and> 1 / 2 ^ 54 \<le> s \<and> s \<le> 2 ^ 54"
proof -
  have "f64_of_int a = Finite (of_int (sint a))" "f64_of_int b = Finite (of_int (sint b))"
    using assms by (simp_all only: f64_of_int_exact less_imp_le)
  moreover have "(of_int (sint a) :: rat) \<noteq> 0"
    using assms(1) by (simp del: of_int_sint)
  ultimately have "f64_div (f64_of_int b) (f64_of_int a) =
      round_f64 (of_int (sint b) / of_int (sint a))"
    by (simp del: of_int_sint)
  then show ?thesis
    using round_f64_quotient [OF assms] by (simp del: of_int_sint)
qed

lemma f64_mul_dim:
  assumes "0 < sint c" "sint c \<le> 2 ^ 53" "1 / 2 ^ 54 \<le> s" "s \<le> 2 ^ 54"
  shows "\<exists>p. f64_mul (f64_of_int c) (Finite s) = Finite p
           \<and> \<bar>p - of_int (sint c) * s\<bar> \<le> (of_int (sint c) * s) / 2 ^ 53 \<and> 0 \<le> p"
proof -
  have "f64_of_int c = Finite (of_int (sint c))"
    using assms by (simp only: f64_of_int_exact less_imp_le)
  then have "f64_mul (f64_of_int c) (Finite s) = round_f64 (of_int (sint c) * s)"
    by (simp del: of_int_sint)
  then show ?thesis
    using round_f64_product [OF assms] by (simp del: of_int_sint)
qed

lemma sint_rounded:
  assumes "0 \<le> p" "p < 2 ^ 62"
  shows "sint (int_of_f64 oob (math_Round (Finite p))) = \<lfloor>p + 1 / 2\<rfloor>"
proof -
  have r: "roundHalfAway p = \<lfloor>p + 1 / 2\<rfloor>"
    using assms(1) by (rule roundHalfAway_nonneg)
  have "0 \<le> \<lfloor>p + 1 / 2\<rfloor>" using assms(1) by simp
  moreover have "\<lfloor>p + 1 / 2\<rfloor> < 2 ^ 63"
  proof -
    have "p + 1 / 2 < of_int (2 ^ 63)" using assms(2) by simp
    then show ?thesis by (simp only: floor_less_iff)
  qed
  ultimately show ?thesis
    using sint_int_of_f64_Round [of p oob] by (simp add: r)
qed

lemma math_Min_Finite: "math_Min (Finite x) (Finite y) = Finite (if x < y then x else y)"
  by simp

lemma box_fit_dims:
  fixes oob :: "float64 \<Rightarrow> 64 word" and W H srcWidth srcHeight :: "64 word"
  assumes box: "0 < sint W" "sint W < 2 ^ 50" "0 < sint H" "sint H < 2 ^ 50"
      and src: "0 < sint srcWidth" "sint srcWidth \<le> 2 ^ 53"
               "0 < sint srcHeight" "sint srcHeight \<le> 2 ^ 53"
  defines "scale \<equiv> math_Min (f64_div (f64_of_int W) (f64_of_int srcWidth))
                             (f64_div (f64_of_int H) (f64_of_int srcHeight))"
  defines "dstWidth \<equiv> int_of_f64 oob (math_Round (f64_mul (f64_of_int srcWidth) scale))"
  defines "dstHeight \<equiv> int_of_f64 oob (math_Round (f64_mul (f64_of_int srcHeight) scale))"
  shows "sint dstWidth \<le> sint W \<and> sint dstHeight \<le> sint H
          \<and> (dstWidth = W \<or> dstHeight = H)"
proof -
  have W53: "sint W \<le> 2 ^ 53" and H53: "sint H \<le> 2 ^ 53"
    using box by simp_all
  obtain s1 where s1: "f64_div (f64_of_int W) (f64_of_int srcWidth) = Finite s1"
      "\<bar>s1 - of_int (sint W) / of_int (sint srcWidth)\<bar>
         \<le> (of_int (sint W) / of_int (sint srcWidth)) / 2 ^ 53"
      "1 / 2 ^ 54 \<le> s1" "s1 \<le> 2 ^ 54"
    using f64_div_dims [OF src(1,2) box(1) W53] by blast
  obtain s2 where s2: "f64_div (f64_of_int H) (f64_of_int srcHeight) = Finite s2"
      "\<bar>s2 - of_int (sint H) / of_int (sint srcHeight)\<bar>
         \<le> (of_int (sint H) / of_int (sint srcHeight)) / 2 ^ 53"
      "1 / 2 ^ 54 \<le> s2" "s2 \<le> 2 ^ 54"
    using f64_div_dims [OF src(3,4) box(3) H53] by blast
  define m where "m = (if s1 < s2 then s1 else s2)"
  have sc: "scale = Finite m"
    unfolding scale_def s1(1) s2(1) m_def by (rule math_Min_Finite)
  have m: "1 / 2 ^ 54 \<le> m" "m \<le> 2 ^ 54" "m \<le> s1" "m \<le> s2"
    using s1(3,4) s2(3,4) by (simp_all add: m_def)
  have mpos: "0 \<le> m"
    using m(1) by (rule order_trans [rotated]) simp
  obtain pw where pw: "f64_mul (f64_of_int srcWidth) (Finite m) = Finite pw"
      "\<bar>pw - of_int (sint srcWidth) * m\<bar> \<le> (of_int (sint srcWidth) * m) / 2 ^ 53" "0 \<le> pw"
    using f64_mul_dim [OF src(1,2) m(1,2)] by blast
  obtain ph where ph: "f64_mul (f64_of_int srcHeight) (Finite m) = Finite ph"
      "\<bar>ph - of_int (sint srcHeight) * m\<bar> \<le> (of_int (sint srcHeight) * m) / 2 ^ 53" "0 \<le> ph"
    using f64_mul_dim [OF src(3,4) m(1,2)] by blast
  have pw_hi: "pw < of_int (sint W) + 1 / 2"
    using src(1) box(1,2) s1(2) mpos m(3) pw(2) by (rule other_dim_rat)
  have ph_hi: "ph < of_int (sint H) + 1 / 2"
    using src(3) box(3,4) s2(2) mpos m(4) ph(2) by (rule other_dim_rat)
  have Wq: "(of_int (sint W) :: rat) < 2 ^ 50" and Hq: "(of_int (sint H) :: rat) < 2 ^ 50"
    using box(2,4) by (simp_all del: of_int_sint)
  have "pw < 2 ^ 62" using pw_hi Wq by simp
  then have dw: "sint dstWidth = \<lfloor>pw + 1 / 2\<rfloor>"
    unfolding dstWidth_def sc pw(1) using pw(3) by (intro sint_rounded)
  have "ph < 2 ^ 62" using ph_hi Hq by simp
  then have dh: "sint dstHeight = \<lfloor>ph + 1 / 2\<rfloor>"
    unfolding dstHeight_def sc ph(1) using ph(3) by (intro sint_rounded)
  have le_w: "sint dstWidth \<le> sint W"
    unfolding dw using pw_hi by (rule floor_half_le)
  have le_h: "sint dstHeight \<le> sint H"
    unfolding dh using ph_hi by (rule floor_half_le)
  have "dstWidth = W \<or> dstHeight = H"
  proof (cases "s1 < s2")
    case True
    then have "m = s1" by (simp add: m_def)
    then have "\<bar>pw - of_int (sint W)\<bar> < 1 / 2"
      using limiting_dim_rat [OF src(1) box(1,2) s1(2)] pw(2) by simp
    then have "sint dstWidth = sint W"
      unfolding dw by (rule floor_half_eq)
    then show ?thesis by (simp add: signed_word_eqI)
  next
    case False
    then have "m = s2" by (simp add: m_def)
    then have "\<bar>ph - of_int (sint H)\<bar> < 1 / 2"
      using limiting_dim_rat [OF src(3) box(3,4) s2(2)] ph(2) by simp
    then have "sint dstHeight = sint H"
      unfolding dh by (rule floor_half_eq)
    then show ?thesis by (simp add: signed_word_eqI)
  qed
  then show ?thesis using le_w le_h by simp
qed

lemma half_integer_frac:
  fixes r :: rat
  assumes "\<bar>of_int d - r\<bar> = 1 / 2"
  shows "frac r = 1 / 2"
proof -
  have "r = of_int d + 1 / 2 \<or> r = of_int (d - 1) + 1 / 2"
    using assms by (simp add: abs_if split: if_splits)
  then have "r - 1 / 2 \<in> \<int>"
    by (auto simp del: of_int_diff)
  moreover have "(0::rat) \<le> 1 / 2" "(1::rat) / 2 < 1"
    by simp_all
  ultimately show ?thesis
    by (simp only: frac_unique_iff)
qed

lemma single_dim_nearest:
  fixes oob :: "float64 \<Rightarrow> 64 word" and a b c :: "64 word"
  assumes a: "0 < sint a" "sint a \<le> 2 ^ 53" and b: "0 < sint b" and c: "0 < sint c"
      and prod: "sint c * sint b < 2 ^ 50"
  defines "d \<equiv> int_of_f64 oob (math_Round
                  (f64_mul (f64_of_int c) (f64_div (f64_of_int b) (f64_of_int a))))"
  defines "r \<equiv> (of_int (sint c) * of_int (sint b) / of_int (sint a) :: rat)"
  shows "\<bar>of_int (sint d) - r\<bar> \<le> 1 / 2 \<and> (frac r \<noteq> 1 / 2 \<longrightarrow> sint d = roundHalfAway r)"
proof -
  define A B C where "A = sint a" and "B = sint b" and "C = sint c"
  have pos: "0 < A" "0 < B" "0 < C" and A53: "A \<le> 2 ^ 53" and CB: "C * B < 2 ^ 50"
    using a b c prod by (simp_all add: A_def B_def C_def)
  have "B * 1 \<le> B * C" using pos by (intro mult_left_mono) simp_all
  then have B50: "B < 2 ^ 50" using CB by (simp add: mult.commute)
  have "C * 1 \<le> C * B" using pos by (intro mult_left_mono) simp_all
  then have C50: "C < 2 ^ 50" using CB by simp
  have r: "r = of_int (C * B) / of_int A"
    by (simp add: r_def A_def B_def C_def del: of_int_sint)
  have Aq: "(1::rat) \<le> of_int A" and Cq: "(0::rat) < of_int C" and Bq: "(0::rat) < of_int B"
    using pos by simp_all
  have CBq: "(of_int (C * B) :: rat) < 2 ^ 50"
    using CB by (metis of_int_less_iff of_int_numeral of_int_power)
  have r0: "0 \<le> r"
    unfolding r using pos by (simp add: zero_le_divide_iff zero_le_mult_iff)
  have rle: "r \<le> of_int (C * B)"
  proof -
    have "of_int (C * B) / of_int A \<le> (of_int (C * B) :: rat) / 1"
      using Aq pos by (intro divide_left_mono) (simp_all add: zero_le_mult_iff)
    then show ?thesis by (simp add: r)
  qed
  obtain s where s: "f64_div (f64_of_int b) (f64_of_int a) = Finite s"
      "\<bar>s - of_int B / of_int A\<bar> \<le> (of_int B / of_int A) / 2 ^ 53"
      "1 / 2 ^ 54 \<le> s" "s \<le> 2 ^ 54"
    using f64_div_dims [of a b] a b B50 unfolding A_def B_def by auto
  obtain p where p: "f64_mul (f64_of_int c) (Finite s) = Finite p"
      "\<bar>p - of_int C * s\<bar> \<le> (of_int C * s) / 2 ^ 53" "0 \<le> p"
    using f64_mul_dim [of c s] c C50 s(3,4) unfolding C_def by auto
  have "of_int C * \<bar>s - of_int B / of_int A\<bar> \<le> of_int C * ((of_int B / of_int A) / 2 ^ 53)"
    using Cq s(2) by (intro mult_left_mono) simp_all
  moreover have "of_int C * \<bar>s - of_int B / of_int A\<bar> = \<bar>of_int C * s - r\<bar>"
  proof -
    have "of_int C * s - r = of_int C * (s - of_int B / of_int A)"
      by (simp add: r right_diff_distrib)
    then show ?thesis
      using Cq by (simp add: abs_mult)
  qed
  ultimately have q: "\<bar>of_int C * s - r\<bar> \<le> r / 2 ^ 53"
    by (simp add: r)
  have err: "\<bar>p - r\<bar> \<le> r / 2 ^ 51"
    using r0 q p(2) by (rule two_roundings)
  have small: "2 * of_int A * (r / 2 ^ 51) < 1"
  proof -
    have "2 * of_int A * (r / 2 ^ 51) = of_int (C * B) / 2 ^ 50"
      using pos by (simp add: r)
    then show ?thesis using CBq by simp
  qed
  have near: "\<bar>of_int \<lfloor>p + 1 / 2\<rfloor> - r\<bar> \<le> 1 / 2"
    using pos(1) r err small by (rule nearest_integer)
  have "p \<le> r + r / 2 ^ 51" using err by linarith
  then have "p < 2 ^ 62" using rle CBq by simp
  then have d: "sint d = \<lfloor>p + 1 / 2\<rfloor>"
    unfolding d_def s(1) p(1) using p(3) by (intro sint_rounded)
  have 1: "\<bar>of_int (sint d) - r\<bar> \<le> 1 / 2"
    using near by (simp add: d del: of_int_sint)
  have 2: "sint d = roundHalfAway r" if "frac r \<noteq> 1 / 2"
  proof -
    have "\<bar>of_int (sint d) - r\<bar> \<noteq> 1 / 2"
      using that half_integer_frac [of "sint d" r] by blast
    then have "\<bar>r - of_int (sint d)\<bar> < 1 / 2"
      using 1 by linarith
    then have "\<lfloor>r + 1 / 2\<rfloor> = sint d"
      by (rule floor_half_eq)
    then show ?thesis
      using r0 by (simp add: roundHalfAway_nonneg)
  qed
  show ?thesis using 1 2 by blast
qed

lemma round_f64_nonneg:
  assumes "0 \<le> x" "round_f64 x = Finite y"
  shows "0 \<le> y"
proof (cases "x = 0")
  case True
  then show ?thesis using assms(2) by (simp add: round_f64_def)
next
  case False
  define u :: rat where "u = 2 powi (max (ilog2 \<bar>x\<bar>) (- 1022) - 52)"
  have upos: "0 < u" by (simp add: u_def)
  have "of_int 0 \<le> x / u" using assms(1) upos by simp
  then have "0 \<le> roundEven (x / u)" by (rule roundEven_ge)
  then have "0 \<le> of_int (roundEven (x / u)) * u"
    using upos by simp
  moreover have "y = of_int (roundEven (x / u)) * u"
    using assms(2) False
    by (simp add: round_f64_def Let_def u_def [symmetric] split: if_splits del: power_int_numeral)
  ultimately show ?thesis by simp
qed

lemma f64_of_int_nonneg:
  assumes "0 < sint n"
  shows "\<exists>x. f64_of_int n = Finite x \<and> 0 < x"
proof -
  define k :: rat where "k = of_int (sint n)"
  have k1: "1 \<le> k"
    using assms unfolding k_def by (simp del: of_int_sint)
  have "sint n < 2 ^ 63" using sint_lt [of n] by simp
  then have k63: "k < 2 ^ 63"
    unfolding k_def by (metis of_int_less_iff of_int_numeral of_int_power)
  have "2 powi (- 1022) \<le> k"
    using k1 by (rule order_trans [rotated]) simp
  moreover have "k < 2 powi 1023"
    using k63 by (rule less_trans) simp
  ultimately obtain y where y: "round_f64 k = Finite y" "\<bar>y - k\<bar> \<le> k / 2 ^ 53"
    using round_f64_normal by blast
  have "k - k / 2 ^ 53 \<le> y" using y(2) by linarith
  then have "0 < y" using k1 by simp
  then show ?thesis
    using y(1) unfolding f64_of_int_def k_def by blast
qed

lemma f64_mul_nonneg:
  assumes "f64_mul (Finite x) f = Finite p" "0 < x" "f64_gt0 f"
  shows "0 \<le> p"
proof (cases f)
  case (Finite s)
  then have "0 \<le> x * s" using assms(2,3) by simp
  then show ?thesis
    using assms(1) Finite round_f64_nonneg by simp
qed (use assms in \<open>simp_all split: if_splits\<close>)

section \<open>Evaluating the arithmetic on numerals\<close>

lemma ilog2_eqI:
  assumes "0 < x" "2 powi e \<le> x" "x < 2 powi (e + 1)"
  shows "ilog2 x = e"
proof -
  have "e \<le> ilog2 x" using assms(1,2) by (rule ilog2_ge)
  moreover have "ilog2 x < e + 1" using assms(1,3) by (rule ilog2_less)
  ultimately show ?thesis by simp
qed

lemma roundEven_eqI:
  assumes "\<bar>x - of_int n\<bar> < 1 / 2"
  shows "roundEven x = n"
proof -
  have "\<bar>of_int (roundEven x) - x\<bar> \<le> 1 / 2" by (rule roundEven_err)
  then have "\<bar>(of_int (roundEven x) :: rat) - of_int n\<bar> < 1"
    using assms by linarith
  then have "\<bar>(of_int (roundEven x - n) :: rat)\<bar> < of_int 1"
    by simp
  then have "\<bar>roundEven x - n\<bar> < 1"
    by (simp only: of_int_abs [symmetric] of_int_less_iff)
  then show ?thesis by simp
qed

lemma roundEven_tie:
  "roundEven (of_int n + 1 / 2) = (if even n then n else n + 1)"
proof -
  have "\<lfloor>rat_of_int n + 1 / 2\<rfloor> = n" by linarith
  then show ?thesis by (simp add: roundEven_def)
qed

text \<open>Rounding a positive number whose binary exponent \<open>e\<close> is known.\<close>

lemma round_f64_eval:
  assumes "0 < x" "2 powi e \<le> x" "x < 2 powi (e + 1)" "- 1022 \<le> e" "e < 1023"
      and "roundEven (x / 2 powi (e - 52)) = n"
  shows "round_f64 x = Finite (of_int n * 2 powi (e - 52))"
proof -
  have e: "ilog2 x = e" using assms(1-3) by (rule ilog2_eqI)
  have "2 powi (- 1022) \<le> x"
  proof -
    have "(2::rat) powi (- 1022) \<le> 2 powi e"
      using assms(4) by (intro power_int_increasing) simp_all
    then show ?thesis using assms(2) by (rule order_trans)
  qed
  moreover have "x < 2 powi 1023"
  proof -
    have "(2::rat) powi (e + 1) \<le> 2 powi 1023"
      using assms(5) by (intro power_int_increasing) simp_all
    with assms(3) show ?thesis by (rule less_le_trans)
  qed
  ultimately obtain y where y: "round_f64 x = Finite y"
    using round_f64_normal by blast
  then show ?thesis
    using assms(1,4,6) e
    by (simp add: round_f64_def Let_def max_def abs_of_pos split: if_splits
          del: power_int_numeral)
qed

lemma round_f64_numeral:
  "numeral k \<le> (2 ^ 53 :: int) \<Longrightarrow> round_f64 (numeral k) = Finite (numeral k)"
  using round_f64_int [of "numeral k"] by simp

lemma int_of_f64_numeral:
  "numeral k < (2 ^ 63 :: int) \<Longrightarrow> int_of_f64 oob (Finite (numeral k)) = numeral k"
  using int_of_f64_of_int [of "numeral k" oob] by simp

lemma int_of_f64_zero: "int_of_f64 oob (Finite 0) = 0"
  using int_of_f64_of_int [of 0 oob] by simp

lemma floor_rat_numeral: "\<lfloor>numeral a / numeral b :: rat\<rfloor> = numeral a div numeral b"
  by (metis floor_divide_of_int_eq of_int_numeral)

lemma roundEven_numeral [simp]: "roundEven (numeral k) = numeral k"
  using roundEven_of_int [of "numeral k"] by simp

lemma roundHalfAway_numeral [simp]: "roundHalfAway (numeral k) = numeral k"
  using roundHalfAway_of_int [of "numeral k"] by simp

lemma round_f64_1: "round_f64 1 = Finite 1"
  using round_f64_int [of 1] by simp

lemma f64_of_int_1: "f64_of_int 1 = Finite 1"
  by (simp add: f64_of_int_def round_f64_1)

section \<open>Allocating the destination image\<close>

lemma sint_word_of_int_high:
  assumes "2 ^ 63 \<le> k" "k < 2 ^ 64"
  shows "sint (word_of_int k :: 64 word) = k - 2 ^ 64"
proof -
  have "(k + 2 ^ 63) mod 2 ^ 64 = (k + 2 ^ 63 - 2 ^ 64) mod 2 ^ 64"
    by (metis mod_diff_right_eq mod_self diff_zero)
  also have "\<dots> = k + 2 ^ 63 - 2 ^ 64"
    using assms by (intro mod_pos_pos_trivial) simp_all
  finally show ?thesis
    by (simp add: int_word_sint)
qed

lemma uint_of_nonneg:
  assumes "0 \<le> sint (w :: 64 word)"
  shows "uint w = sint w"
proof (cases "uint w < 2 ^ 63")
  case True
  moreover have "0 \<le> uint w" by simp
  ultimately have "sint (word_of_int (uint w) :: 64 word) = uint w"
    by (intro sint_word_of_int_64) linarith+
  then show ?thesis by simp
next
  case False
  moreover have "uint w < 2 ^ 64"
    using uint_lt2p [of w] by simp
  ultimately have "sint (word_of_int (uint w) :: 64 word) = uint w - 2 ^ 64"
    by (intro sint_word_of_int_high) simp_all
  then have "sint w < 0"
    using \<open>uint w < 2 ^ 64\<close> by simp
  then show ?thesis using assms by simp
qed

lemma mul3NonNeg_four:
  assumes "0 \<le> sint y" "0 \<le> sint z"
  shows "mul3NonNeg 4 y z =
     (if 4 * sint y < 2 ^ 64 \<and> 4 * sint y * sint z < 2 ^ 63
      then word_of_int (4 * sint y * sint z) else - 1)"
proof -
  define Y where "Y = sint y"
  define Z where "Z = sint z"
  have uy: "uint y = Y" and uz: "uint z = Z"
    using assms by (simp_all add: uint_of_nonneg Y_def Z_def)
  have nn: "0 \<le> Y" "0 \<le> Z" "0 \<le> 4 * Y" "0 \<le> 4 * Y * Z"
    using assms by (simp_all add: Y_def Z_def)
  have s4: "sint (4 :: 64 word) = 4" "uint (4 :: 64 word) = 4"
    by simp_all
  have same: "uint (word_of_int (k mod 2 ^ 64) :: 64 word) = k mod 2 ^ 64" for k
    by (simp add: uint_word_of_int)
  have unf: "mul3NonNeg 4 y z =
     (if (4 * Y) div 2 ^ 64 \<noteq> 0 then - 1
      else if ((4 * Y) mod 2 ^ 64 * Z) div 2 ^ 64 \<noteq> 0 then - 1
      else if sint (word_of_int (((4 * Y) mod 2 ^ 64 * Z) mod 2 ^ 64) :: 64 word) < 0 then - 1
      else word_of_int (((4 * Y) mod 2 ^ 64 * Z) mod 2 ^ 64))"
    using assms unfolding mul3NonNeg_def Let_def s4 uy uz same
    by (simp only: Y_def [symmetric] Z_def [symmetric] nn not_less [symmetric] if_False simp_thms) simp
  show ?thesis
  proof (cases "4 * Y < 2 ^ 64")
    case False
    then have "0 < (4 * Y) div 2 ^ 64"
      by (simp add: pos_imp_zdiv_pos_iff)
    then have "(4 * Y) div 2 ^ 64 \<noteq> 0"
      by simp
    then show ?thesis
      using False unfolding unf Y_def [symmetric] Z_def [symmetric] by (simp only: if_True simp_thms if_False)
  next
    case True
    then have lo: "(4 * Y) div 2 ^ 64 = 0" "(4 * Y) mod 2 ^ 64 = 4 * Y"
      using nn(3) by simp_all
    show ?thesis
    proof (cases "4 * Y * Z < 2 ^ 64")
      case False
      then have "0 < (4 * Y * Z) div 2 ^ 64"
        by (simp add: pos_imp_zdiv_pos_iff)
      then have "(4 * Y * Z) div 2 ^ 64 \<noteq> 0"
        by simp
      moreover have "\<not> 4 * Y * Z < 2 ^ 63"
        using False by simp
      ultimately show ?thesis
        unfolding unf Y_def [symmetric] Z_def [symmetric] lo by (simp only: if_True simp_thms if_False)
    next
      case T2: True
      then have lo2: "(4 * Y * Z) div 2 ^ 64 = 0" "(4 * Y * Z) mod 2 ^ 64 = 4 * Y * Z"
        using nn(4) by simp_all
      show ?thesis
      proof (cases "4 * Y * Z < 2 ^ 63")
        case T3: True
        then have "sint (word_of_int (4 * Y * Z) :: 64 word) = 4 * Y * Z"
          using nn(4) by (intro sint_word_of_int_64) linarith+
        then have "\<not> sint (word_of_int (4 * Y * Z) :: 64 word) < 0"
          using nn(4) by linarith
        then show ?thesis
          using T3 True
          unfolding unf Y_def [symmetric] Z_def [symmetric] lo lo2
          by (simp only: if_True simp_thms if_False)
      next
        case F3: False
        then have "sint (word_of_int (4 * Y * Z) :: 64 word) = 4 * Y * Z - 2 ^ 64"
          using T2 by (intro sint_word_of_int_high) linarith+
        then have "sint (word_of_int (4 * Y * Z) :: 64 word) < 0"
          using T2 by linarith
        then show ?thesis
          using F3 True
          unfolding unf Y_def [symmetric] Z_def [symmetric] lo lo2
          by (simp only: if_True simp_thms if_False)
      qed
    qed
  qed
qed

lemma Rect_origin:
  assumes "0 \<le> sint w" "0 \<le> sint h"
  shows "Rectangle_Dx (image_Rect 0 0 w h) = w" "Rectangle_Dy (image_Rect 0 0 w h) = h"
  using assms by (simp_all add: image_Rect_def Rectangle_Dx_def Rectangle_Dy_def)

lemma NewRGBA_returns:
  assumes "0 \<le> sint w" "sint w < 2 ^ 62" "0 \<le> sint h" "4 * sint w * sint h < 2 ^ 63"
      and "mk (word_of_int (4 * sint w * sint h)) = None"
  shows "NewRGBA mk (image_Rect 0 0 w h) =
     Returns \<lparr>Dx = w, Dy = h, Pix = replicate (nat (4 * sint w * sint h)) 0\<rparr>"
proof -
  have nn: "0 \<le> 4 * sint w * sint h"
    using assms(1,3) by simp
  have m: "mul3NonNeg 4 w h = word_of_int (4 * sint w * sint h)"
    using assms(2,4) by (simp only: mul3NonNeg_four [OF assms(1,3)]) simp
  have s: "sint (word_of_int (4 * sint w * sint h) :: 64 word) = 4 * sint w * sint h"
    using nn assms(4) by (intro sint_word_of_int_64) linarith+
  have u: "unat (word_of_int (4 * sint w * sint h) :: 64 word) = nat (4 * sint w * sint h)"
    using uint_of_nonneg [of "word_of_int (4 * sint w * sint h) :: 64 word"] nn
    unfolding s by (simp only: unat_eq_nat_uint)
  have p: "pixelBufferLength 4 (image_Rect 0 0 w h) ''RGBA'' =
      Returns (word_of_int (4 * sint w * sint h))"
    unfolding pixelBufferLength_def Rect_origin [OF assms(1,3)] m Let_def s
    using nn by (simp only: not_less [symmetric] if_False simp_thms)
  show ?thesis
    unfolding NewRGBA_def p Rect_origin [OF assms(1,3)]
    by (simp only: outcome.case assms(5) option.case u)
qed


lemma NewRGBA_failed_allocation:
  assumes "0 \<le> sint w" "sint w < 2 ^ 62" "0 \<le> sint h" "4 * sint w * sint h < 2 ^ 63"
      and "mk (word_of_int (4 * sint w * sint h)) = Some msg"
  shows "NewRGBA mk (image_Rect 0 0 w h) = Panics msg"
proof -
  have nn: "0 \<le> 4 * sint w * sint h"
    using assms(1,3) by simp
  have m: "mul3NonNeg 4 w h = word_of_int (4 * sint w * sint h)"
    using assms(2,4) by (simp only: mul3NonNeg_four [OF assms(1,3)]) simp
  have s: "sint (word_of_int (4 * sint w * sint h) :: 64 word) = 4 * sint w * sint h"
    using nn assms(4) by (intro sint_word_of_int_64) linarith+
  have p: "pixelBufferLength 4 (image_Rect 0 0 w h) ''RGBA'' =
      Returns (word_of_int (4 * sint w * sint h))"
    unfolding pixelBufferLength_def Rect_origin [OF assms(1,3)] m Let_def s
    using nn by (simp only: not_less [symmetric] if_False simp_thms)
  show ?thesis
    unfolding NewRGBA_def p
    by (simp only: outcome.case assms(5) option.case)
qed

section \<open>Resizing that changes nothing\<close>

lemma scale_one_dim:
  assumes "0 \<le> sint n" "sint n \<le> 2 ^ 53"
  shows "int_of_f64 oob (math_Round (f64_mul (f64_of_int n) (Finite 1))) = n"
proof -
  have "f64_of_int n = Finite (of_int (sint n))"
    using assms by (rule f64_of_int_exact)
  moreover have "round_f64 (of_int (sint n)) = Finite (of_int (sint n))"
    using assms by (rule round_f64_int)
  moreover have "int_of_f64 oob (Finite (of_int (sint n))) = word_of_int (sint n)"
    using assms by (intro int_of_f64_of_int) simp_all
  ultimately show ?thesis
    by (simp del: of_int_sint) simp
qed

lemma no_request_identity:
  assumes "f64_eq0 (ResizeSpec.Scale spec)" "ResizeSpec.Width spec = 0" "ResizeSpec.Height spec = 0"
  shows "CalculateOutputSize oob srcWidth srcHeight spec = (srcWidth, srcHeight)"
    and "ResizeImage oob mk scaler src spec = Returns src"
proof -
  have "\<not> f64_gt0 (ResizeSpec.Scale spec)"
    using assms(1) by (cases "ResizeSpec.Scale spec") simp_all
  then show "CalculateOutputSize oob srcWidth srcHeight spec = (srcWidth, srcHeight)"
    using assms(2,3) by (simp add: CalculateOutputSize_def)
  show "ResizeImage oob mk scaler src spec = Returns src"
    using assms by (simp add: ResizeImage_def)
qed

lemma same_size_noop:
  "CalculateOutputSizeFromImage oob src spec = (Dx src, Dy src) \<Longrightarrow>
     ResizeImage oob mk scaler src spec = Returns src"
  by (simp add: ResizeImage_def)

lemma ResizeImage_resample:
  assumes "\<not> (f64_eq0 (ResizeSpec.Scale spec) \<and> ResizeSpec.Width spec = 0 \<and> ResizeSpec.Height spec = 0)"
      and "CalculateOutputSizeFromImage oob src spec = (w, h)"
      and "\<not> (w = Dx src \<and> h = Dy src)"
  shows "ResizeImage oob mk scaler src spec =
     (case NewRGBA mk (image_Rect 0 0 w h) of
        Panics msg \<Rightarrow> Panics msg
      | Returns dst \<Rightarrow> Returns (scaler dst src))"
  using assms by (auto simp add: ResizeImage_def)

lemma scale_one_noop:
  assumes "ResizeSpec.Scale spec = Finite 1"
      and "0 \<le> sint (Dx src)" "sint (Dx src) \<le> 2 ^ 53"
      and "0 \<le> sint (Dy src)" "sint (Dy src) \<le> 2 ^ 53"
  shows "ResizeImage oob mk scaler src spec = Returns src"
proof -
  have "CalculateOutputSizeFromImage oob src spec = (Dx src, Dy src)"
    using assms(1) scale_one_dim [OF assms(2,3), of oob] scale_one_dim [OF assms(4,5), of oob]
    by (simp add: CalculateOutputSizeFromImage_def CalculateOutputSize_def
          del: f64_mul.simps math_Round.simps)
  then show ?thesis by (rule same_size_noop)
qed

section \<open>The statistics invariant\<close>

lemma UpdateStats_effect:
  "stats (UpdateStats c r) =
     (if ConversionResult.Success r
      then (stats c)\<lparr>Total := Total (stats c) + 1,
                      ConversionStats.Success := ConversionStats.Success (stats c) + 1\<rparr>
      else (stats c)\<lparr>Total := Total (stats c) + 1, Failed := Failed (stats c) + 1\<rparr>)"
  by (simp add: UpdateStats_def Let_def)

lemma IncrementSkipped_effect:
  "stats (IncrementSkipped c) =
     (stats c)\<lparr>Total := Total (stats c) + 1, Skipped := Skipped (stats c) + 1\<rparr>"
  by (simp add: IncrementSkipped_def Let_def)

lemma UpdateStats_config [simp]: "config (UpdateStats c r) = config c"
  by (simp add: UpdateStats_def Let_def)

lemma IncrementSkipped_config [simp]: "config (IncrementSkipped c) = config c"
  by (simp add: IncrementSkipped_def Let_def)

lemma applyOp_invariant:
  "statsInvariant (stats c) \<Longrightarrow> statsInvariant (stats (applyOp c op))"
  by (cases op) (simp_all add: statsInvariant_def UpdateStats_effect IncrementSkipped_effect)

lemma foldl_applyOp_invariant:
  "statsInvariant (stats c) \<Longrightarrow> statsInvariant (stats (foldl applyOp c ops))"
  by (induction ops arbitrary: c) (simp_all add: applyOp_invariant)

lemma NewConverter_invariant: "statsInvariant (stats (NewConverter cfg))"
  by (simp add: NewConverter_def statsInvariant_def)

text \<open>
  C3. Starting from the empty statistics of \<open>NewConverter\<close>, after any sequence of
  \<open>UpdateStats\<close> and \<open>IncrementSkipped\<close> steps the total equals the sum of the success,
  failed and skipped counters. \<open>UpdateStats\<close> adds one to the total and one to exactly
  one of success (successful result) and failed (failed result), leaving the other two
  counters as they were; \<open>IncrementSkipped\<close> adds one to the total and one to skipped,
  leaving success and failed as they were. The counters are 64-bit and the additions wrap.
\<close>

theorem stats_invariant_reachable:
  "statsInvariant (stats (foldl applyOp (NewConverter cfg) ops))
   \<and> Total (stats (UpdateStats c r)) = Total (stats c) + 1
   \<and> ConversionStats.Success (stats (UpdateStats c r)) =
       ConversionStats.Success (stats c) + (if ConversionResult.Success r then 1 else 0)
   \<and> Failed (stats (UpdateStats c r)) =
       Failed (stats c) + (if ConversionResult.Success r then 0 else 1)
   \<and> Skipped (stats (UpdateStats c r)) = Skipped (stats c)
   \<and> Total (stats (IncrementSkipped c)) = Total (stats c) + 1
   \<and> Skipped (stats (IncrementSkipped c)) = Skipped (stats c) + 1
   \<and> ConversionStats.Success (stats (IncrementSkipped c)) = ConversionStats.Success (stats c)
   \<and> Failed (stats (IncrementSkipped c)) = Failed (stats c)"
  by (simp add: foldl_applyOp_invariant NewConverter_invariant UpdateStats_effect
        IncrementSkipped_effect)

section \<open>Formats and output paths\<close>

lemma imageExtensions_iff:
  "lookupBool imageExtensions e =
     (e = ''.jpg'' \<or> e = ''.jpeg'' \<or> e = ''.png'' \<or> e = ''.gif'' \<or> e = ''.bmp'' \<or> e = ''.webp'')"
  by (auto simp add: lookupBool_def imageExtensions_def)

lemma supportedFormats_iff:
  "lookupBool supportedFormats e =
     (e = ''jpeg'' \<or> e = ''jpg'' \<or> e = ''png'' \<or> e = ''webp'' \<or> e = ''gif'' \<or> e = ''bmp'')"
  by (auto simp add: lookupBool_def supportedFormats_def)

lemma DetectFormat_Inr_iff:
  "(\<exists>fmt. DetectFormat uni path = Inr fmt) = IsImageFile uni path"
  by (auto simp add: DetectFormat_def IsImageFile_def imageExtensions_iff Let_def)

lemma DetectFormat_not_image:
  "\<not> IsImageFile uni path \<Longrightarrow>
     DetectFormat uni path = Inl (UnsupportedImageFormat (ToLower uni (filepath_Ext path)))"
  by (simp add: DetectFormat_def IsImageFile_def imageExtensions_iff Let_def)

lemma DetectFormat_image:
  "IsImageFile uni path \<Longrightarrow>
     \<exists>fmt. DetectFormat uni path = Inr fmt \<and>
        fmt \<in> {FormatJPEG, FormatPNG, FormatWebP, FormatGIF, FormatBMP}"
  by (auto simp add: DetectFormat_def IsImageFile_def imageExtensions_iff Let_def)

lemma Ext_append_newExt: "filepath_Ext (stem @ newExt fmt) = newExt fmt"
  by (simp add: filepath_Ext_def newExt_def isPathSeparator_def)

lemma TrimSuffix_append: "TrimSuffix (stem @ suf) suf = stem"
  by (simp add: TrimSuffix_def HasSuffix_def)

lemma newExt_cases:
  "newExt FormatJPEG = ''.jpg''" "newExt FormatPNG = ''.png''" "newExt FormatWebP = ''.webp''"
  "newExt FormatGIF = ''.gif''" "newExt FormatBMP = ''.bmp''"
  by (simp_all add: newExt_def Format_defs)

lemma splitSep_noSep: "noSep name \<Longrightarrow> splitSep name cur = [rev cur @ name]"
  by (induction name arbitrary: cur) (simp_all add: noSep_def)

lemma splitSep_append:
  "noSep name \<Longrightarrow> splitSep (a @ CHR ''/'' # name) cur = splitSep a cur @ [name]"
  by (induction a arbitrary: cur) (simp_all add: splitSep_noSep isPathSeparator_def)

lemma cleanElems_snoc:
  "name \<noteq> [] \<Longrightarrow> name \<noteq> ''.'' \<Longrightarrow> name \<noteq> ''..'' \<Longrightarrow>
     cleanElems rooted (es @ [name]) out = cleanElems rooted es out @ [name]"
  by (induction rooted es out rule: cleanElems.induct) (auto split: list.splits)

lemma joinSep_snoc:
  "joinSep (pre @ [name]) = (if pre = [] then name else joinSep pre @ ''/'' @ name)"
  by (induction pre rule: joinSep.induct) simp_all

lemma dropWhile_rev_last:
  "name \<noteq> [] \<Longrightarrow> \<not> P (last name) \<Longrightarrow> dropWhile P (rev name @ ys) = rev name @ ys"
  by (cases name rule: rev_cases) simp_all

lemma takeWhile_rev_sep:
  "d = [] \<or> last d = CHR ''/'' \<Longrightarrow>
     takeWhile (\<lambda>c. \<not> isPathSeparator c) (rev d) = []"
  by (cases d rule: rev_cases) (simp_all add: isPathSeparator_def)

lemma Base_under:
  assumes "name \<noteq> []" "noSep name" "d = [] \<or> last d = CHR ''/''"
  shows "filepath_Base (d @ name) = name"
proof -
  have nl: "\<not> isPathSeparator (last name)"
    using assms(1,2) by (simp add: noSep_def)
  have d1: "dropWhile isPathSeparator (rev name @ rev d) = rev name @ rev d"
    using assms(1) nl by (rule dropWhile_rev_last)
  have t0: "takeWhile (\<lambda>c. \<not> isPathSeparator c) (rev name @ rev d) = rev name"
  proof -
    have "\<And>x. x \<in> set (rev name) \<Longrightarrow> \<not> isPathSeparator x"
      using assms(2) by (simp add: noSep_def)
    then have "takeWhile (\<lambda>c. \<not> isPathSeparator c) (rev name @ rev d) =
                 rev name @ takeWhile (\<lambda>c. \<not> isPathSeparator c) (rev d)"
      by (rule takeWhile_append2)
    then show ?thesis
      using takeWhile_rev_sep [OF assms(3)] by simp
  qed
  show ?thesis
    using assms(1) by (simp add: filepath_Base_def d1 Let_def t0)
qed

lemma Clean_under:
  assumes "name \<noteq> []" "noSep name" "name \<noteq> ''.''" "name \<noteq> ''..''"
  shows "\<exists>d. filepath_Clean (dir @ ''/'' @ name) = d @ name \<and> (d = [] \<or> last d = CHR ''/'')"
proof -
  let ?rooted = "isPathSeparator (hd (dir @ ''/'' @ name))"
  let ?pre = "cleanElems ?rooted (splitSep dir []) []"
  have body: "joinSep (cleanElems ?rooted (splitSep (dir @ ''/'' @ name) []) []) =
                (if ?pre = [] then name else joinSep ?pre @ ''/'' @ name)"
    using assms by (simp add: splitSep_append cleanElems_snoc joinSep_snoc)
  show ?thesis
  proof (cases "?pre = []")
    case True
    with body assms(1) show ?thesis
      by (auto simp add: filepath_Clean_def Let_def intro: exI [where x = "''/''"] exI [where x = "[]"])
  next
    case False
    with body assms(1) show ?thesis
      by (auto simp add: filepath_Clean_def Let_def
            intro: exI [where x = "''/'' @ joinSep ?pre @ ''/''"] exI [where x = "joinSep ?pre @ ''/''"])
  qed
qed

lemma Clean_single:
  assumes "name \<noteq> []" "noSep name" "name \<noteq> ''.''" "name \<noteq> ''..''"
  shows "filepath_Clean name = name"
proof -
  have "\<not> isPathSeparator (hd name)"
    using assms(1,2) by (cases name) (simp_all add: noSep_def)
  then show ?thesis
    using assms by (simp add: filepath_Clean_def splitSep_noSep Let_def)
qed

lemma Base_Join:
  assumes "name \<noteq> []" "noSep name" "name \<noteq> ''.''" "name \<noteq> ''..''"
  shows "filepath_Base (filepath_Join [dir, name]) = name"
proof (cases "dir = []")
  case True
  then show ?thesis
    using assms Base_under [of name "[]"] by (simp add: filepath_Join_def Clean_single)
next
  case False
  obtain d where d: "filepath_Clean (dir @ ''/'' @ name) = d @ name" "d = [] \<or> last d = CHR ''/''"
    using Clean_under [OF assms] by blast
  have "filepath_Join [dir, name] = filepath_Clean (dir @ ''/'' @ name)"
    using False assms(1) by (simp add: filepath_Join_def)
  then show ?thesis
    using d Base_under [OF assms(1,2) d(2)] by simp
qed

lemma noSep_Base: "filepath_Base p \<noteq> ''/'' \<Longrightarrow> noSep (filepath_Base p)"
  by (auto simp add: filepath_Base_def noSep_def Let_def isPathSeparator_def
        split: if_splits dest: set_takeWhileD)

lemma noSep_TrimSuffix: "noSep s \<Longrightarrow> noSep (TrimSuffix s suf)"
  by (auto simp add: TrimSuffix_def noSep_def dest: in_set_takeD)

lemma noSep_newExt: "noSep (newExt fmt)"
  by (simp add: newExt_def noSep_def isPathSeparator_def)

lemma length_newExt: "4 \<le> length (newExt fmt)"
  by (simp add: newExt_def)

lemma Base_GenerateOutputPath:
  assumes "filepath_Base p \<noteq> ''/''"
  shows "filepath_Base (GenerateOutputPath p dir fmt) = GenerateOutputFilename p fmt"
proof -
  let ?name = "GenerateOutputFilename p fmt"
  have ns: "noSep ?name"
    using noSep_TrimSuffix [OF noSep_Base [OF assms]] noSep_newExt [of fmt]
    by (auto simp add: GenerateOutputFilename_def baseNameWithoutExt_def Let_def noSep_def)
  have len: "4 \<le> length ?name"
    using length_newExt [of fmt] by (simp add: GenerateOutputFilename_def)
  then have "?name \<noteq> []" "?name \<noteq> ''.''" "?name \<noteq> ''..''"
    by auto
  then show ?thesis
    using ns by (simp add: GenerateOutputPath_def Base_Join)
qed

section \<open>The worker pool\<close>

lemma ConvertImage_config:
  "config c = config c' \<Longrightarrow> ConvertImage env c f out = ConvertImage env c' f out"
  unfolding ConvertImage_def by (simp only:)

lemma returns_config: "config c = config c' \<Longrightarrow> returns env c out = returns env c' out"
  by (rule ext) (simp only: returns_def ConvertImage_config [of c c'])

lemma converts_config: "config c = config c' \<Longrightarrow> converts env c out = converts env c' out"
  by (rule ext) (simp only: converts_def ConvertImage_config [of c c'])

lemma returns_iff: "returns env c out f = (\<exists>r. ConvertImage env c f out = Returns r)"
  by (simp add: returns_def split: outcome.splits)

lemma converts_Returns:
  "ConvertImage env c f out = Returns r \<Longrightarrow> converts env c out f = ConversionResult.Success r"
  by (simp add: converts_def)

lemma partitionFiles_eq:
  "partitionFiles isImage files c acc =
     ((IncrementSkipped ^^ length (filter (\<lambda>f. \<not> isImage f) files)) c,
      acc @ filter isImage files)"
  by (induction files arbitrary: c acc) (simp_all add: funpow_swap1)

lemma funpow_IncrementSkipped_config [simp]:
  "config ((IncrementSkipped ^^ n) c) = config c"
  by (induction n) simp_all

lemma funpow_IncrementSkipped_stats:
  "stats ((IncrementSkipped ^^ n) c) =
     (stats c)\<lparr>Total := Total (stats c) + of_nat n, Skipped := Skipped (stats c) + of_nat n\<rparr>"
  by (induction n) (simp_all add: IncrementSkipped_effect add.assoc add.commute)

lemma workerStep_Returns:
  assumes "workerStep env out p (Returns p')"
  obtains f pending c dn result where
    "p = (pending, c, dn)" "f \<in># pending" "ConvertImage env c f out = Returns result"
    "p' = (pending - {#f#}, UpdateStats c result, dn @ [result])"
  using assms by (auto elim: workerStep.cases)

lemma workerStep_Panics:
  assumes "workerStep env out p (Panics msg)"
  obtains f pending c dn where
    "p = (pending, c, dn)" "f \<in># pending" "ConvertImage env c f out = Panics msg"
  using assms by (auto elim: workerStep.cases)

lemma waitGroup_spec_aux:
  "waitGroup env out p res \<Longrightarrow> res = Returns r \<Longrightarrow> poolSpec env out p r"
proof (induction arbitrary: r rule: waitGroup.induct)
  case (drained env out c "done")
  then show ?case by (auto simp add: poolSpec_def)
next
  case (running env out p p' res)
  from running.hyps(1) obtain f pending c dn result where
    p: "p = (pending, c, dn)" and f: "f \<in># pending" and
    conv: "ConvertImage env c f out = Returns result" and
    p': "p' = (pending - {#f#}, UpdateStats c result, dn @ [result])"
    by (rule workerStep_Returns)
  obtain c' dn' where r: "r = (c', dn')" by (cases r)
  let ?c1 = "UpdateStats c result"
  have cfg: "config ?c1 = config c" by simp
  have same: "\<And>g. ConvertImage env ?c1 g out = ConvertImage env c g out"
    by (rule ConvertImage_config) simp
  have same': "converts env ?c1 out = converts env c out"
    by (rule converts_config) simp
  obtain M where M: "pending = add_mset f M"
    using f by (blast dest: multi_member_split)
  have IH: "poolSpec env out (M, ?c1, dn @ [result]) (c', dn')"
    using running.IH [OF running.prems] p' r M by simp
  have cf: "converts env c out f = ConversionResult.Success result"
    using conv by (rule converts_Returns)
  show ?case
    using IH unfolding p r M poolSpec_def
    by (simp add: same same' cf conv UpdateStats_effect add.assoc)
next
  case (aborted env out p msg)
  then show ?case by simp
qed

lemma waitGroup_spec: "waitGroup env out p (Returns r) \<Longrightarrow> poolSpec env out p r"
  by (rule waitGroup_spec_aux) simp_all

lemma waitGroup_exists: "\<exists>res. waitGroup env out (pending, c, dn) res"
proof (induction pending arbitrary: c dn rule: multiset_induct)
  case empty
  show ?case by (blast intro: waitGroup.drained)
next
  case (add f M)
  show ?case
  proof (cases "ConvertImage env c f out")
    case (Returns result)
    have step: "workerStep env out (add_mset f M, c, dn)
        (Returns (M, UpdateStats c result, dn @ [result]))"
      using workerStep.finish [of f "add_mset f M" env c out result dn] Returns by simp
    obtain res where "waitGroup env out (M, UpdateStats c result, dn @ [result]) res"
      using add.IH by blast
    then show ?thesis
      using waitGroup.running [OF step] by blast
  next
    case (Panics msg)
    have "workerStep env out (add_mset f M, c, dn) (Panics msg)"
      using workerStep.panic [of f "add_mset f M" env c out msg dn] Panics by simp
    then show ?thesis
      by (blast intro: waitGroup.aborted)
  qed
qed

lemma waitGroup_returns:
  "\<forall>f \<in># pending. returns env c out f \<Longrightarrow> \<exists>r. waitGroup env out (pending, c, dn) (Returns r)"
proof (induction pending arbitrary: c dn rule: multiset_induct)
  case empty
  show ?case by (blast intro: waitGroup.drained)
next
  case (add f M)
  obtain result where conv: "ConvertImage env c f out = Returns result"
    using add.prems by (auto simp add: returns_iff)
  have step: "workerStep env out (add_mset f M, c, dn)
      (Returns (M, UpdateStats c result, dn @ [result]))"
    using workerStep.finish [of f "add_mset f M" env c out result dn] conv by simp
  have "returns env (UpdateStats c result) out = returns env c out"
    by (rule returns_config) simp
  then have "\<forall>f \<in># M. returns env (UpdateStats c result) out f"
    using add.prems by simp
  then obtain r where "waitGroup env out (M, UpdateStats c result, dn @ [result]) (Returns r)"
    using add.IH by blast
  then show ?case
    using waitGroup.running [OF step] by blast
qed


lemma waitGroup_no_panic:
  assumes "waitGroup env out (pending, c, dn) (Panics msg)"
  shows "\<exists>f \<in># pending. \<not> returns env c out f"
proof -
  have "waitGroup env out p res \<Longrightarrow> res = Panics msg \<Longrightarrow>
      \<exists>f \<in># fst p. \<not> returns env (fst (snd p)) out f" for p res
  proof (induction rule: waitGroup.induct)
    case (drained env out c "done")
    then show ?case by simp
  next
    case (running env out p p' res)
    from running.hyps(1) obtain f pending c dn result where
      p: "p = (pending, c, dn)" and f: "f \<in># pending" and
      p': "p' = (pending - {#f#}, UpdateStats c result, dn @ [result])"
      by (rule workerStep_Returns)
    have "returns env (UpdateStats c result) out = returns env c out"
      by (rule returns_config) simp
    then show ?case
      using running.IH [OF running.prems] p p' by (auto dest: in_diffD)
  next
    case (aborted env out p msg')
    from aborted.hyps obtain f pending c dn where
      p: "p = (pending, c, dn)" and f: "f \<in># pending"
      and conv: "ConvertImage env c f out = Panics msg'"
      by (rule workerStep_Panics)
    have "\<not> returns env c out f"
      using conv by (simp add: returns_def)
    then show ?case
      using p f by auto
  qed
  from this [OF assms] show ?thesis by simp
qed

lemma ProcessDirectory_exists: "\<exists>res. ProcessDirectory env fsManager c inputDir outputDir res"
proof (cases "ScanDirectory fsManager inputDir")
  case (Inl err)
  then show ?thesis by (blast intro: ProcessDirectory.scanFailed)
next
  case (Inr files)
  obtain c1 imageFiles where
    pf: "partitionFiles (IsImageFileOf fsManager) files c [] = (c1, imageFiles)"
    by (cases "partitionFiles (IsImageFileOf fsManager) files c []")
  obtain res where w: "waitGroup env outputDir (mset imageFiles, c1, []) res"
    using waitGroup_exists by blast
  show ?thesis
  proof (cases res)
    case (Returns r)
    then show ?thesis
      using Inr pf w by (cases r) (blast intro: ProcessDirectory.processed)
  next
    case (Panics msg)
    then show ?thesis
      using Inr pf w by (blast intro: ProcessDirectory.panicked)
  qed
qed

lemma size_filter_mset_list: "size (filter_mset P (mset xs)) = length (filter P xs)"
  by (metis mset_filter size_mset)

lemma waitGroup_list:
  assumes "waitGroup env out (mset fs, c, []) (Returns (c', results))"
  shows "config c' = config c
     \<and> image_mset Returns (mset results) = image_mset (\<lambda>f. ConvertImage env c f out) (mset fs)
     \<and> Total (stats c') = Total (stats c) + of_nat (length fs)
     \<and> ConversionStats.Success (stats c') = ConversionStats.Success (stats c) +
         of_nat (length (filter (converts env c out) fs))
     \<and> Failed (stats c') = Failed (stats c) +
         of_nat (length (filter (\<lambda>f. \<not> converts env c out f) fs))
     \<and> Skipped (stats c') = Skipped (stats c)"
  using waitGroup_spec [OF assms] by (simp add: poolSpec_def size_filter_mset_list)

lemma ProcessDirectory_outcome:
  assumes run: "ProcessDirectory env fsManager c inputDir outputDir (Returns (err, c', results))"
      and scan: "ScanDirectory fsManager inputDir = Inr files"
  shows "err = None \<and> config c' = config c
     \<and> image_mset Returns (mset results) =
         image_mset (\<lambda>f. ConvertImage env c f outputDir)
           (mset (filter (IsImageFileOf fsManager) files))
     \<and> Total (stats c') = Total (stats c) + of_nat (length files)
     \<and> ConversionStats.Success (stats c') = ConversionStats.Success (stats c) +
         of_nat (length (filter (\<lambda>f. IsImageFileOf fsManager f \<and> converts env c outputDir f) files))
     \<and> Failed (stats c') = Failed (stats c) +
         of_nat (length (filter (\<lambda>f. IsImageFileOf fsManager f \<and> \<not> converts env c outputDir f) files))
     \<and> Skipped (stats c') = Skipped (stats c) +
         of_nat (length (filter (\<lambda>f. \<not> IsImageFileOf fsManager f) files))"
  using run
proof (cases rule: ProcessDirectory.cases)
  case (scanFailed e)
  then show ?thesis using scan by simp
next
  case (processed files' c1 imageFiles)
  let ?img = "IsImageFileOf fsManager"
  let ?k = "length (filter (\<lambda>f. \<not> ?img f) files)"
  have files': "files' = files" using processed scan by simp
  have c1: "c1 = (IncrementSkipped ^^ ?k) c" and imgs: "imageFiles = filter ?img files"
    using processed(3) unfolding files' partitionFiles_eq by simp_all
  have same: "\<And>g. ConvertImage env c1 g outputDir = ConvertImage env c g outputDir"
    by (rule ConvertImage_config) (simp add: c1)
  have same': "converts env c1 outputDir = converts env c outputDir"
    by (rule converts_config) (simp add: c1)
  have len: "length files = ?k + length (filter ?img files)"
    using sum_length_filter_compl [of ?img files] by simp
  have pool: "config c' = config c1
     \<and> image_mset Returns (mset results) =
         image_mset (\<lambda>f. ConvertImage env c1 f outputDir) (mset imageFiles)
     \<and> Total (stats c') = Total (stats c1) + of_nat (length imageFiles)
     \<and> ConversionStats.Success (stats c') = ConversionStats.Success (stats c1) +
         of_nat (length (filter (converts env c1 outputDir) imageFiles))
     \<and> Failed (stats c') = Failed (stats c1) +
         of_nat (length (filter (\<lambda>f. \<not> converts env c1 outputDir f) imageFiles))
     \<and> Skipped (stats c') = Skipped (stats c1)"
    using processed(4) by (rule waitGroup_list)
  have st1: "Total (stats c1) = Total (stats c) + of_nat ?k"
    "ConversionStats.Success (stats c1) = ConversionStats.Success (stats c)"
    "Failed (stats c1) = Failed (stats c)"
    "Skipped (stats c1) = Skipped (stats c) + of_nat ?k"
    "config c1 = config c"
    by (simp_all add: c1 funpow_IncrementSkipped_stats)
  have tot: "Total (stats c') = Total (stats c) + of_nat (length files)"
    using pool by (simp add: st1 imgs len add.assoc)
  show ?thesis
    using pool processed(1) tot
    by (simp add: same same' st1 imgs filter_filter conj_commute del: mset_filter)
qed


lemma ProcessDirectory_Panics:
  assumes run: "ProcessDirectory env fsManager c inputDir outputDir (Panics msg)"
      and scan: "ScanDirectory fsManager inputDir = Inr files"
  shows "\<exists>f \<in> set files. IsImageFileOf fsManager f \<and> \<not> returns env c outputDir f"
  using run
proof (cases rule: ProcessDirectory.cases)
  case (panicked files' c1 imageFiles)
  have files': "files' = files" using panicked scan by simp
  have c1: "config c1 = config c" and imgs: "imageFiles = filter (IsImageFileOf fsManager) files"
    using panicked(2) unfolding files' partitionFiles_eq by auto
  obtain f where "f \<in># mset imageFiles" "\<not> returns env c1 outputDir f"
    using waitGroup_no_panic [OF panicked(3)] by blast
  then show ?thesis
    using returns_config [OF c1, of env outputDir] imgs by auto
qed

lemma ProcessDirectory_returns:
  assumes scan: "ScanDirectory fsManager inputDir = Inr files"
      and all: "\<forall>f \<in> set files. IsImageFileOf fsManager f \<longrightarrow> returns env c outputDir f"
  shows "\<exists>c' results. ProcessDirectory env fsManager c inputDir outputDir (Returns (None, c', results))"
proof -
  obtain res where run: "ProcessDirectory env fsManager c inputDir outputDir res"
    using ProcessDirectory_exists by blast
  show ?thesis
  proof (cases res)
    case (Returns r)
    obtain err c' results where r: "r = (err, c', results)" by (cases r)
    have "err = None"
      using ProcessDirectory_outcome [OF run [unfolded Returns r] scan] by simp
    then show ?thesis using run Returns r by blast
  next
    case (Panics msg)
    then show ?thesis
      using ProcessDirectory_Panics [OF run [unfolded Panics] scan] all by blast
  qed
qed

section \<open>The single-file converter\<close>

lemma ConvertImage_load_failed:
  "Load env p = Inl err \<Longrightarrow>
     ConvertImage env c p out =
       Returns \<lparr>SourcePath = p, OutputPath = [], Success = False,
                Error = Some (Wrap ''failed to load image'' err)\<rparr>"
  by (simp add: ConvertImage_def)

lemma ConvertImage_panics:
  "Load env p = Inr img \<Longrightarrow> resized env c img = Panics msg \<Longrightarrow>
     ConvertImage env c p out = Panics msg"
  by (simp add: ConvertImage_def resized_def)

lemma ConvertImage_detect_failed:
  "Load env p = Inr img \<Longrightarrow> resized env c img = Returns resizedImg \<Longrightarrow>
   resolvedFormat env c p = Inl err \<Longrightarrow>
     ConvertImage env c p out =
       Returns \<lparr>SourcePath = p, OutputPath = [], Success = False,
                Error = Some (Wrap ''failed to detect format'' err)\<rparr>"
  by (simp add: ConvertImage_def resized_def resolvedFormat_def split: if_splits)

lemma ConvertImage_saved:
  assumes "Load env p = Inr img" "resized env c img = Returns resizedImg"
      and "resolvedFormat env c p = Inr fmt"
  shows "ConvertImage env c p out =
     (case Save env resizedImg (GenerateOutputPath p out fmt) fmt (savedQuality c) of
        Some err \<Rightarrow>
          Returns \<lparr>SourcePath = p, OutputPath = GenerateOutputPath p out fmt, Success = False,
                   Error = Some (Wrap ''failed to save image'' err)\<rparr>
      | None \<Rightarrow>
          Returns \<lparr>SourcePath = p, OutputPath = GenerateOutputPath p out fmt, Success = True,
                   Error = None\<rparr>)"
  using assms
  by (simp add: ConvertImage_def resized_def resolvedFormat_def savedQuality_def Let_def
        split: if_splits option.splits)

lemma ConvertImage_cases:
  obtains (load) err where "Load env p = Inl err"
   | (panic) img msg where "Load env p = Inr img" "resized env c img = Panics msg"
   | (format) img resizedImg err where "Load env p = Inr img"
       "resized env c img = Returns resizedImg" "resolvedFormat env c p = Inl err"
   | (save) img resizedImg fmt where "Load env p = Inr img"
       "resized env c img = Returns resizedImg" "resolvedFormat env c p = Inr fmt"
proof (cases "Load env p")
  case (Inl err)
  then show ?thesis by (rule load)
next
  case (Inr img)
  show ?thesis
  proof (cases "resized env c img")
    case (Panics msg)
    with Inr show ?thesis by (rule panic)
  next
    case (Returns resizedImg)
    show ?thesis
    proof (cases "resolvedFormat env c p")
      case (Inl err)
      with Inr Returns show ?thesis by (rule format)
    next
      case Inr2: (Inr fmt)
      with Inr Returns show ?thesis by (rule save)
    qed
  qed
qed

lemma returns_iff_resized:
  "returns env c out p =
     (\<forall>img. Load env p = Inr img \<longrightarrow> (\<exists>resizedImg. resized env c img = Returns resizedImg))"
proof (cases rule: ConvertImage_cases [where env = env and p = p and c = c])
  case (load err)
  then show ?thesis by (simp add: returns_def ConvertImage_load_failed)
next
  case (panic img msg)
  then show ?thesis by (simp add: returns_def ConvertImage_panics)
next
  case (format img resizedImg err)
  then show ?thesis by (simp add: returns_def ConvertImage_detect_failed)
next
  case (save img resizedImg fmt)
  then show ?thesis by (simp add: returns_def ConvertImage_saved split: option.splits)
qed





lemma converts_returns: "converts env c out p \<Longrightarrow> returns env c out p"
  by (simp add: converts_def returns_def split: outcome.splits)

lemma ConvertImage_detect_error:
  assumes "ConvertImage env c p out = Returns r"
      and "Error r = Some (Wrap ''failed to detect format'' err)"
  shows "Format (config c) = [] \<and> DetectFormat (unicodeLower env) p = Inl err"
proof (cases rule: ConvertImage_cases [where env = env and p = p and c = c])
  case (load e)
  then show ?thesis using assms by (auto simp add: ConvertImage_load_failed)
next
  case (panic img msg)
  then show ?thesis using assms by (simp add: ConvertImage_panics)
next
  case (format img resizedImg e)
  then show ?thesis
    using assms by (auto simp add: ConvertImage_detect_failed resolvedFormat_def split: if_splits)
next
  case (save img resizedImg fmt)
  then show ?thesis using assms by (auto simp add: ConvertImage_saved split: option.splits)
qed

lemma NormalizeFormat_supported:
  assumes "IsFormatSupported uni format"
  shows "NormalizeFormat uni format \<in> {FormatJPEG, FormatPNG, FormatWebP, FormatGIF, FormatBMP}"
  using assms
  by (auto simp add: IsFormatSupported_def NormalizeFormat_def supportedFormats_iff Format_defs Let_def)

lemma NormalizeFormat_unsupported:
  assumes "\<not> IsFormatSupported uni format"
  shows "NormalizeFormat uni format \<notin> {FormatJPEG, FormatPNG, FormatWebP, FormatGIF, FormatBMP}"
    and "NormalizeFormat uni format = ToLower uni format"
  using assms
  by (auto simp add: IsFormatSupported_def NormalizeFormat_def supportedFormats_iff Format_defs Let_def)

lemma Save_supported:
  assumes "writesSucceed env" "fmt \<in> {FormatJPEG, FormatPNG, FormatWebP, FormatGIF, FormatBMP}"
  shows "Save env img path fmt quality = None"
  using assms
  by (auto simp add: writesSucceed_def Save_def saveJPEG_def savePNG_def saveWebP_def saveGIF_def
        saveBMP_def wrapErr_def)

lemma Save_unsupported:
  assumes "fmt \<notin> {FormatJPEG, FormatPNG, FormatWebP, FormatGIF, FormatBMP}"
  shows "Save env img path fmt quality =
     (case osCreate env path of
        Some err \<Rightarrow> Some (Wrap ''failed to create file'' err)
      | None \<Rightarrow> Some (UnsupportedOutputFormat fmt))"
  using assms by (simp add: Save_def split: option.splits)



lemma resized_same_size:
  assumes "CalculateOutputSizeFromImage (intOutOfRange env) img
      \<lparr>ResizeSpec.Scale = Config.Scale (config c), ResizeSpec.Width = Config.Width (config c),
       ResizeSpec.Height = Config.Height (config c)\<rparr> = (Dx img, Dy img)"
  shows "resized env c img = Returns img"
  unfolding resized_def using assms by (rule same_size_noop)

lemma resized_allocated:
  assumes "CalculateOutputSizeFromImage (intOutOfRange env) img
      \<lparr>ResizeSpec.Scale = Config.Scale (config c), ResizeSpec.Width = Config.Width (config c),
       ResizeSpec.Height = Config.Height (config c)\<rparr> = (w, h)"
      and "0 \<le> sint w" "sint w < 2 ^ 62" "0 \<le> sint h" "4 * sint w * sint h < 2 ^ 63"
      and "makeBytes env (word_of_int (4 * sint w * sint h)) = None"
  shows "\<exists>resizedImg. resized env c img = Returns resizedImg"
proof -
  let ?spec = "\<lparr>ResizeSpec.Scale = Config.Scale (config c), ResizeSpec.Width = Config.Width (config c),
       ResizeSpec.Height = Config.Height (config c)\<rparr>"
  show ?thesis
  proof (cases "(f64_eq0 (ResizeSpec.Scale ?spec) \<and> ResizeSpec.Width ?spec = 0 \<and> ResizeSpec.Height ?spec = 0)
      \<or> (w = Dx img \<and> h = Dy img)")
    case True
    then show ?thesis
      using assms(1) by (auto simp add: resized_def ResizeImage_def)
  next
    case False
    then have "resized env c img =
       (case NewRGBA (makeBytes env) (image_Rect 0 0 w h) of
          Panics msg \<Rightarrow> Panics msg
        | Returns dst \<Rightarrow> Returns (catmullRomScale env dst img))"
      unfolding resized_def using assms(1) by (intro ResizeImage_resample) blast+
    then show ?thesis
      by (simp add: NewRGBA_returns [of w h "makeBytes env", OF assms(2-6)])
  qed
qed


text \<open>
  In an environment where every write succeeds, with a supported (or no) output format and
  the repository's own classifier, every image file that loads and is resized without a
  panic is converted successfully.
\<close>

lemma valid_image_converts:
  assumes writes: "writesSucceed env"
      and format: "Format (config c) = [] \<or> IsFormatSupported (unicodeLower env) (Format (config c))"
      and classifier: "IsImageFileOf fsManager = IsImageFile (unicodeLower env)"
      and valid: "validImage env fsManager p"
      and resize: "\<And>img. Load env p = Inr img \<Longrightarrow> \<exists>resizedImg. resized env c img = Returns resizedImg"
  shows "converts env c out p"
proof -
  obtain img where img: "Load env p = Inr img"
    using valid by (auto simp add: validImage_def decodes_def split: sum.splits)
  obtain resizedImg where rs: "resized env c img = Returns resizedImg"
    using resize [OF img] by blast
  have image: "IsImageFile (unicodeLower env) p"
    using valid classifier by (simp add: validImage_def)
  obtain fmt where fmt: "resolvedFormat env c p = Inr fmt"
      "fmt \<in> {FormatJPEG, FormatPNG, FormatWebP, FormatGIF, FormatBMP}"
  proof (cases "Format (config c) = []")
    case True
    then show ?thesis
      using DetectFormat_image [OF image] that by (auto simp add: resolvedFormat_def)
  next
    case False
    then have "IsFormatSupported (unicodeLower env) (Format (config c))"
      using format by simp
    then show ?thesis
      using NormalizeFormat_supported that False by (simp add: resolvedFormat_def)
  qed
  show ?thesis
    by (simp add: converts_def ConvertImage_saved [OF img rs fmt(1)] Save_supported [OF writes fmt(2)])
qed


lemma dispatched_never_undetected:
  assumes "IsImageFile (unicodeLower env) path"
      and "ConvertImage env c path outputDir = Returns r"
  shows "Error r \<noteq> Some (Wrap ''failed to detect format'' err)"
proof
  assume "Error r = Some (Wrap ''failed to detect format'' err)"
  then have "DetectFormat (unicodeLower env) path = Inl err"
    using ConvertImage_detect_error [OF assms(2)] by blast
  moreover obtain fmt where "DetectFormat (unicodeLower env) path = Inr fmt"
    using DetectFormat_image [OF assms(1)] by blast
  ultimately show False by simp
qed





section \<open>The sample batch, evaluated\<close>

lemma sample_classifier:
  "IsImageFile (\<lambda>s. s) ''in/a.png''" "\<not> IsImageFile (\<lambda>s. s) ''in/b.txt''"
  "IsImageFile (\<lambda>s. s) ''in/c.png''" "\<not> IsImageFile (\<lambda>s. s) ''in/d.dat''"
  by code_simp+

lemma sample_strings:
  "NormalizeFormat (\<lambda>s. s) ''jpeg'' = FormatJPEG"
  "GenerateOutputPath ''in/a.png'' ''out'' FormatJPEG = ''out/a.jpg''"
  "\<not> IsFormatSupported (\<lambda>s. s) ''tiff''"
  "ToLower (\<lambda>s. s) ''tiff'' = ''tiff''"
  "GenerateOutputPath ''in/a.png'' ''out'' ''tiff'' = ''out/a.jpg''"
  "ToLower (\<lambda>s. s) (filepath_Ext ''in/d.dat'') = ''.dat''"
  "DetectFormat (\<lambda>s. s) ''in/a.png'' = Inr FormatPNG"
  by code_simp+

lemma sample_load:
  "Load sampleEnv ''in/a.png'' = Inr \<lparr>Dx = 100, Dy = 100, Pix = []\<rparr>"
  "Load sampleEnv ''in/d.dat'' = Inr \<lparr>Dx = 100, Dy = 100, Pix = []\<rparr>"
  "Load sampleEnv ''in/c.png'' =
     Inl (Wrap ''failed to decode image'' (External ''image: unknown format''))"
  by (simp_all add: Load_def sampleEnv_def)


lemma sample_half_size:
  "CalculateOutputSizeFromImage amd64OutOfRange \<lparr>Dx = 100, Dy = 100, Pix = []\<rparr>
     \<lparr>ResizeSpec.Scale = Finite (1 / 2), ResizeSpec.Width = 0, ResizeSpec.Height = 0\<rparr> = (50, 50)"
  by (simp add: CalculateOutputSizeFromImage_def CalculateOutputSize_def f64_of_int_def
        round_f64_numeral int_of_f64_numeral)


lemma sample_scales:
  assumes "config c = sampleConfig \<or> config c = tiffConfig \<or> config c = keepFormatConfig"
  shows "Config.Scale (config c) = Finite (1 / 2) \<and> Config.Width (config c) = 0
     \<and> Config.Height (config c) = 0"
  using assms by (auto simp add: sampleConfig_def tiffConfig_def keepFormatConfig_def)

lemma sample_resized:
  assumes "config c = sampleConfig \<or> config c = tiffConfig \<or> config c = keepFormatConfig"
  shows "resized sampleEnv c \<lparr>Dx = 100, Dy = 100, Pix = []\<rparr> =
     Returns \<lparr>Dx = 50, Dy = 50, Pix = replicate 10000 0\<rparr>"
proof -
  have k: "Config.Scale (config c) = Finite (1 / 2)" "Config.Width (config c) = 0"
      "Config.Height (config c) = 0" "intOutOfRange sampleEnv = amd64OutOfRange"
      "makeBytes sampleEnv = (\<lambda>n. None)" "catmullRomScale sampleEnv = (\<lambda>dst src. dst)"
    using sample_scales [OF assms] by (simp_all add: sampleEnv_def)
  have n: "NewRGBA (\<lambda>n. None) (image_Rect 0 0 50 50) =
      Returns \<lparr>Dx = 50, Dy = 50, Pix = replicate (nat (4 * sint (50 :: 64 word) * sint (50 :: 64 word))) 0\<rparr>"
    by (rule NewRGBA_returns) simp_all
  have "resized sampleEnv c \<lparr>Dx = 100, Dy = 100, Pix = []\<rparr> =
       (case NewRGBA (\<lambda>n. None) (image_Rect 0 0 50 50) of
          Panics msg \<Rightarrow> Panics msg
        | Returns dst \<Rightarrow> Returns ((\<lambda>dst src. dst) dst \<lparr>Dx = 100, Dy = 100, Pix = []\<rparr>))"
    unfolding resized_def k by (rule ResizeImage_resample) (simp_all add: sample_half_size)
  then show ?thesis
    by (simp add: n)
qed








lemma sample_returns:
  assumes "config c = sampleConfig \<or> config c = tiffConfig \<or> config c = keepFormatConfig"
  shows "returns sampleEnv c out ''in/a.png''" "returns sampleEnv c out ''in/c.png''"
    "returns sampleEnv c out ''in/d.dat''"
  by (simp_all add: returns_iff_resized sample_load sample_resized [OF assms])

lemma sample_scan: "ScanDirectory sampleScanner ''in'' = Inr sampleFiles"
  by (simp add: sampleScanner_def)



lemma sample_image_files:
  "IsImageFileOf sampleScanner f \<and> f \<in> set sampleFiles \<longleftrightarrow> f = ''in/a.png'' \<or> f = ''in/c.png''"
  by (auto simp add: sampleFiles_def sampleScanner_def sample_classifier)



section \<open>Claims about the geometry calculator\<close>

text \<open>
  C4 (bounding-box fit, as amended). When the scale is unset and both a width and a height
  are requested, for source dimensions up to \<open>2\<^sup>5\<^sup>3\<close> and box dimensions below
  \<open>2\<^sup>5\<^sup>0\<close> the output width is at most the box width, the output height is at most
  the box height, and one of the two equals its bound exactly. Both output dimensions are
  the source dimension times the smaller of the two \<open>float64\<close> quotients, rounded half
  away from zero.
\<close>

theorem bounding_box_fit:
  assumes unset: "\<not> f64_gt0 (ResizeSpec.Scale spec)"
      and box: "0 < sint (ResizeSpec.Width spec)" "sint (ResizeSpec.Width spec) < 2 ^ 50"
               "0 < sint (ResizeSpec.Height spec)" "sint (ResizeSpec.Height spec) < 2 ^ 50"
      and src: "0 < sint srcWidth" "sint srcWidth \<le> 2 ^ 53"
               "0 < sint srcHeight" "sint srcHeight \<le> 2 ^ 53"
  shows "sint (fst (CalculateOutputSize oob srcWidth srcHeight spec)) \<le> sint (ResizeSpec.Width spec)
       \<and> sint (snd (CalculateOutputSize oob srcWidth srcHeight spec)) \<le> sint (ResizeSpec.Height spec)
       \<and> (fst (CalculateOutputSize oob srcWidth srcHeight spec) = ResizeSpec.Width spec
          \<or> snd (CalculateOutputSize oob srcWidth srcHeight spec) = ResizeSpec.Height spec)
       \<and> CalculateOutputSize oob srcWidth srcHeight spec =
           (int_of_f64 oob (math_Round (f64_mul (f64_of_int srcWidth)
              (math_Min (f64_div (f64_of_int (ResizeSpec.Width spec)) (f64_of_int srcWidth))
                        (f64_div (f64_of_int (ResizeSpec.Height spec)) (f64_of_int srcHeight))))),
            int_of_f64 oob (math_Round (f64_mul (f64_of_int srcHeight)
              (math_Min (f64_div (f64_of_int (ResizeSpec.Width spec)) (f64_of_int srcWidth))
                        (f64_div (f64_of_int (ResizeSpec.Height spec)) (f64_of_int srcHeight))))))"
  using box_fit_dims [OF box src, of oob] unset box(1,3)
  by (simp add: CalculateOutputSize_def Let_def)

theorem bounding_box_fit_witness:
  "sint (fst (CalculateOutputSize amd64OutOfRange 1920 1080
      \<lparr>ResizeSpec.Scale = Finite 0, ResizeSpec.Width = 800, ResizeSpec.Height = 600\<rparr>)) \<le> 800
   \<and> sint (snd (CalculateOutputSize amd64OutOfRange 1920 1080
      \<lparr>ResizeSpec.Scale = Finite 0, ResizeSpec.Width = 800, ResizeSpec.Height = 600\<rparr>)) \<le> 600
   \<and> (fst (CalculateOutputSize amd64OutOfRange 1920 1080
      \<lparr>ResizeSpec.Scale = Finite 0, ResizeSpec.Width = 800, ResizeSpec.Height = 600\<rparr>) = 800
     \<or> snd (CalculateOutputSize amd64OutOfRange 1920 1080
      \<lparr>ResizeSpec.Scale = Finite 0, ResizeSpec.Width = 800, ResizeSpec.Height = 600\<rparr>) = 600)"
proof -
  let ?spec = "\<lparr>ResizeSpec.Scale = Finite 0, ResizeSpec.Width = 800, ResizeSpec.Height = 600\<rparr>"
  let ?out = "CalculateOutputSize amd64OutOfRange 1920 1080 ?spec"
  have fit: "sint (fst ?out) \<le> sint (ResizeSpec.Width ?spec)
      \<and> sint (snd ?out) \<le> sint (ResizeSpec.Height ?spec)
      \<and> (fst ?out = ResizeSpec.Width ?spec \<or> snd ?out = ResizeSpec.Height ?spec)
      \<and> ?out =
           (int_of_f64 amd64OutOfRange (math_Round (f64_mul (f64_of_int 1920)
              (math_Min (f64_div (f64_of_int (ResizeSpec.Width ?spec)) (f64_of_int 1920))
                        (f64_div (f64_of_int (ResizeSpec.Height ?spec)) (f64_of_int 1080))))),
            int_of_f64 amd64OutOfRange (math_Round (f64_mul (f64_of_int 1080)
              (math_Min (f64_div (f64_of_int (ResizeSpec.Width ?spec)) (f64_of_int 1920))
                        (f64_div (f64_of_int (ResizeSpec.Height ?spec)) (f64_of_int 1080))))))"
    by (rule bounding_box_fit) simp_all
  have "sint (fst ?out) \<le> sint (ResizeSpec.Width ?spec)"
    using fit by (rule conjunct1)
  moreover have "sint (snd ?out) \<le> sint (ResizeSpec.Height ?spec)"
    using fit by (elim conjE)
  moreover have "fst ?out = ResizeSpec.Width ?spec \<or> snd ?out = ResizeSpec.Height ?spec"
    using fit by (elim conjE)
  ultimately show ?thesis by simp
qed

text \<open>
  The claim as stated, for all positive dimensions, fails where \<open>float64\<close> cannot hold
  the requested size: a box of \<open>2\<^sup>5\<^sup>3 + 3\<close> pixels is converted to \<open>2\<^sup>5\<^sup>3 + 4\<close>, and a
  1 by 1 source comes out one pixel larger than the box.
\<close>

lemma round_f64_tie_example: "round_f64 9007199254740995 = Finite 9007199254740996"
  using round_f64_eval [of 9007199254740995 53 4503599627370498]
        roundEven_tie [of 4503599627370497]
  by simp

lemma round_f64_even_example: "round_f64 9007199254740996 = Finite 9007199254740996"
  using round_f64_eval [of 9007199254740996 53 4503599627370498] by simp

theorem bounding_box_counterexample:
  "CalculateOutputSize amd64OutOfRange 1 1
     \<lparr>ResizeSpec.Scale = Finite 0, ResizeSpec.Width = 9007199254740995,
      ResizeSpec.Height = 9007199254740995\<rparr> = (9007199254740996, 9007199254740996)
   \<and> sint (9007199254740995 :: 64 word) < sint (9007199254740996 :: 64 word)"
  by (simp add: CalculateOutputSize_def f64_of_int_def round_f64_1 round_f64_tie_example
        round_f64_even_example int_of_f64_numeral)

text \<open>
  C5 (scale factor, as amended). When the scale is greater than zero, whatever the width
  and height fields hold, each output dimension is the \<open>float64\<close> product of the source
  dimension and the scale, rounded half away from zero (for the non-negative product:
  the floor of the product plus one half), provided the product is finite and its rounded
  value is below \<open>2\<^sup>6\<^sup>3\<close>.
\<close>

theorem scale_factor_resize:
  assumes set: "f64_gt0 (ResizeSpec.Scale spec)"
      and src: "0 < sint srcWidth" "0 < sint srcHeight"
      and prod: "f64_mul (f64_of_int srcWidth) (ResizeSpec.Scale spec) = Finite pw"
                "f64_mul (f64_of_int srcHeight) (ResizeSpec.Scale spec) = Finite ph"
      and fits: "roundHalfAway pw < 2 ^ 63" "roundHalfAway ph < 2 ^ 63"
  shows "sint (fst (CalculateOutputSize oob srcWidth srcHeight spec)) = roundHalfAway pw
       \<and> sint (snd (CalculateOutputSize oob srcWidth srcHeight spec)) = roundHalfAway ph
       \<and> roundHalfAway pw = \<lfloor>pw + 1 / 2\<rfloor> \<and> roundHalfAway ph = \<lfloor>ph + 1 / 2\<rfloor>"
proof -
  obtain xw where xw: "f64_of_int srcWidth = Finite xw" "0 < xw"
    using f64_of_int_nonneg [OF src(1)] by blast
  obtain xh where xh: "f64_of_int srcHeight = Finite xh" "0 < xh"
    using f64_of_int_nonneg [OF src(2)] by blast
  have pw: "0 \<le> pw" using prod(1) xw set by (simp add: f64_mul_nonneg)
  have ph: "0 \<le> ph" using prod(2) xh set by (simp add: f64_mul_nonneg)
  have "0 \<le> roundHalfAway pw" "0 \<le> roundHalfAway ph"
    using pw ph by (simp_all add: roundHalfAway_nonneg)
  then have "sint (int_of_f64 oob (math_Round (Finite pw))) = roundHalfAway pw"
       "sint (int_of_f64 oob (math_Round (Finite ph))) = roundHalfAway ph"
    using fits by (simp_all only: sint_int_of_f64_Round)
  then show ?thesis
    using set prod pw ph by (simp add: CalculateOutputSize_def roundHalfAway_nonneg)
qed

lemma round_f64_25_256: "round_f64 (25 / 256) = Finite (25 / 256)"
  using round_f64_eval [of "25 / 256" "- 4" 7036874417766400] by simp

theorem scale_factor_resize_witness:
  "sint (fst (CalculateOutputSize amd64OutOfRange 100 100
      \<lparr>ResizeSpec.Scale = Finite (1 / 2), ResizeSpec.Width = 0, ResizeSpec.Height = 0\<rparr>)) = 50
   \<and> sint (snd (CalculateOutputSize amd64OutOfRange 100 100
      \<lparr>ResizeSpec.Scale = Finite (1 / 2), ResizeSpec.Width = 0, ResizeSpec.Height = 0\<rparr>)) = 50
   \<and> sint (fst (CalculateOutputSize amd64OutOfRange 100 100
      \<lparr>ResizeSpec.Scale = Finite (1 / 1024), ResizeSpec.Width = 640, ResizeSpec.Height = 480\<rparr>)) = 0"
  using scale_factor_resize [of "\<lparr>ResizeSpec.Scale = Finite (1 / 2), ResizeSpec.Width = 0,
            ResizeSpec.Height = 0\<rparr>" 100 100 50 50 amd64OutOfRange]
        scale_factor_resize [of "\<lparr>ResizeSpec.Scale = Finite (1 / 1024), ResizeSpec.Width = 640,
            ResizeSpec.Height = 480\<rparr>" 100 100 "25 / 256" "25 / 256" amd64OutOfRange]
  by (simp add: f64_of_int_def round_f64_numeral round_f64_25_256 roundHalfAway_def
        floor_rat_numeral)

text \<open>
  Without the proviso the claim fails: for a scale of \<open>2\<^sup>6\<^sup>3\<close> the rounded product of a
  1 pixel source is \<open>2\<^sup>6\<^sup>3\<close>, which no \<open>int\<close> holds; on amd64 the result is
  \<open>-2\<^sup>6\<^sup>3\<close>.
\<close>

lemma round_f64_2_63: "round_f64 9223372036854775808 = Finite 9223372036854775808"
  using round_f64_eval [of 9223372036854775808 63 4503599627370496] by simp

theorem scale_factor_counterexample:
  "sint (fst (CalculateOutputSize amd64OutOfRange 1 1
     \<lparr>ResizeSpec.Scale = Finite 9223372036854775808, ResizeSpec.Width = 0,
      ResizeSpec.Height = 0\<rparr>)) = - 9223372036854775808
   \<and> roundHalfAway (1 * 9223372036854775808) = 9223372036854775808"
  by (simp add: CalculateOutputSize_def f64_of_int_1 round_f64_2_63 int_of_f64_def
        truncToZero_def amd64OutOfRange_def)

text \<open>
  C6 (one dimension requested, as amended). With the scale unset and source dimensions
  up to \<open>2\<^sup>5\<^sup>3\<close>: when only the width is requested and the product of source height and
  requested width is below \<open>2\<^sup>5\<^sup>0\<close>, the output width is the requested width exactly and
  the output height is an integer nearest to \<open>srcH * width / srcW\<close>; it is that quotient
  rounded half away from zero unless the quotient lies exactly half way between two
  integers. Symmetrically when only the height is requested.
\<close>

theorem single_dimension_resize:
  assumes unset: "\<not> f64_gt0 (ResizeSpec.Scale spec)"
      and src: "0 < sint srcWidth" "sint srcWidth \<le> 2 ^ 53"
               "0 < sint srcHeight" "sint srcHeight \<le> 2 ^ 53"
  shows "(0 < sint (ResizeSpec.Width spec) \<and> \<not> 0 < sint (ResizeSpec.Height spec)
          \<and> sint srcHeight * sint (ResizeSpec.Width spec) < 2 ^ 50 \<longrightarrow>
            fst (CalculateOutputSize oob srcWidth srcHeight spec) = ResizeSpec.Width spec
          \<and> \<bar>of_int (sint (snd (CalculateOutputSize oob srcWidth srcHeight spec)))
               - of_int (sint srcHeight) * of_int (sint (ResizeSpec.Width spec))
                   / (of_int (sint srcWidth) :: rat)\<bar> \<le> 1 / 2
          \<and> (frac (of_int (sint srcHeight) * of_int (sint (ResizeSpec.Width spec))
                   / (of_int (sint srcWidth) :: rat)) \<noteq> 1 / 2 \<longrightarrow>
               sint (snd (CalculateOutputSize oob srcWidth srcHeight spec)) =
                 roundHalfAway (of_int (sint srcHeight) * of_int (sint (ResizeSpec.Width spec))
                   / of_int (sint srcWidth))))
       \<and> (0 < sint (ResizeSpec.Height spec) \<and> \<not> 0 < sint (ResizeSpec.Width spec)
          \<and> sint srcWidth * sint (ResizeSpec.Height spec) < 2 ^ 50 \<longrightarrow>
            snd (CalculateOutputSize oob srcWidth srcHeight spec) = ResizeSpec.Height spec
          \<and> \<bar>of_int (sint (fst (CalculateOutputSize oob srcWidth srcHeight spec)))
               - of_int (sint srcWidth) * of_int (sint (ResizeSpec.Height spec))
                   / (of_int (sint srcHeight) :: rat)\<bar> \<le> 1 / 2
          \<and> (frac (of_int (sint srcWidth) * of_int (sint (ResizeSpec.Height spec))
                   / (of_int (sint srcHeight) :: rat)) \<noteq> 1 / 2 \<longrightarrow>
               sint (fst (CalculateOutputSize oob srcWidth srcHeight spec)) =
                 roundHalfAway (of_int (sint srcWidth) * of_int (sint (ResizeSpec.Height spec))
                   / of_int (sint srcHeight))))"
proof (intro conjI impI; elim conjE)
  assume w: "0 < sint (ResizeSpec.Width spec)" "\<not> 0 < sint (ResizeSpec.Height spec)"
     "sint srcHeight * sint (ResizeSpec.Width spec) < 2 ^ 50"
  have eq: "CalculateOutputSize oob srcWidth srcHeight spec =
      (ResizeSpec.Width spec, int_of_f64 oob (math_Round (f64_mul (f64_of_int srcHeight)
         (f64_div (f64_of_int (ResizeSpec.Width spec)) (f64_of_int srcWidth)))))"
    using unset w(1,2) by (simp add: CalculateOutputSize_def Let_def)
  note n = single_dim_nearest [OF src(1,2) w(1) src(3) w(3), of oob]
  show "fst (CalculateOutputSize oob srcWidth srcHeight spec) = ResizeSpec.Width spec"
    by (simp add: eq)
  show "\<bar>of_int (sint (snd (CalculateOutputSize oob srcWidth srcHeight spec)))
               - of_int (sint srcHeight) * of_int (sint (ResizeSpec.Width spec))
                   / (of_int (sint srcWidth) :: rat)\<bar> \<le> 1 / 2"
    using n unfolding eq snd_conv by (rule conjunct1)
  assume "frac (of_int (sint srcHeight) * of_int (sint (ResizeSpec.Width spec))
                   / (of_int (sint srcWidth) :: rat)) \<noteq> 1 / 2"
  then show "sint (snd (CalculateOutputSize oob srcWidth srcHeight spec)) =
                 roundHalfAway (of_int (sint srcHeight) * of_int (sint (ResizeSpec.Width spec))
                   / of_int (sint srcWidth))"
    using n unfolding eq snd_conv by blast
next
  assume h: "0 < sint (ResizeSpec.Height spec)" "\<not> 0 < sint (ResizeSpec.Width spec)"
     "sint srcWidth * sint (ResizeSpec.Height spec) < 2 ^ 50"
  have eq: "CalculateOutputSize oob srcWidth srcHeight spec =
      (int_of_f64 oob (math_Round (f64_mul (f64_of_int srcWidth)
         (f64_div (f64_of_int (ResizeSpec.Height spec)) (f64_of_int srcHeight)))),
       ResizeSpec.Height spec)"
    using unset h(1,2) by (simp add: CalculateOutputSize_def Let_def)
  note n = single_dim_nearest [OF src(3,4) h(1) src(1) h(3), of oob]
  show "snd (CalculateOutputSize oob srcWidth srcHeight spec) = ResizeSpec.Height spec"
    by (simp add: eq)
  show "\<bar>of_int (sint (fst (CalculateOutputSize oob srcWidth srcHeight spec)))
               - of_int (sint srcWidth) * of_int (sint (ResizeSpec.Height spec))
                   / (of_int (sint srcHeight) :: rat)\<bar> \<le> 1 / 2"
    using n unfolding eq fst_conv by (rule conjunct1)
  assume "frac (of_int (sint srcWidth) * of_int (sint (ResizeSpec.Height spec))
                   / (of_int (sint srcHeight) :: rat)) \<noteq> 1 / 2"
  then show "sint (fst (CalculateOutputSize oob srcWidth srcHeight spec)) =
                 roundHalfAway (of_int (sint srcWidth) * of_int (sint (ResizeSpec.Height spec))
                   / of_int (sint srcHeight))"
    using n unfolding eq fst_conv by blast
qed

theorem single_dimension_resize_witness:
  "fst (CalculateOutputSize amd64OutOfRange 1920 1080
      \<lparr>ResizeSpec.Scale = Finite 0, ResizeSpec.Width = 800, ResizeSpec.Height = 0\<rparr>) = 800
   \<and> sint (snd (CalculateOutputSize amd64OutOfRange 1920 1080
      \<lparr>ResizeSpec.Scale = Finite 0, ResizeSpec.Width = 800, ResizeSpec.Height = 0\<rparr>)) = 450
   \<and> snd (CalculateOutputSize amd64OutOfRange 1920 1080
      \<lparr>ResizeSpec.Scale = Finite 0, ResizeSpec.Width = 0, ResizeSpec.Height = 600\<rparr>) = 600
   \<and> sint (fst (CalculateOutputSize amd64OutOfRange 1920 1080
      \<lparr>ResizeSpec.Scale = Finite 0, ResizeSpec.Width = 0, ResizeSpec.Height = 600\<rparr>)) = 1067"
  using single_dimension_resize [of "\<lparr>ResizeSpec.Scale = Finite 0, ResizeSpec.Width = 800,
            ResizeSpec.Height = 0\<rparr>" 1920 1080 amd64OutOfRange]
        single_dimension_resize [of "\<lparr>ResizeSpec.Scale = Finite 0, ResizeSpec.Width = 0,
            ResizeSpec.Height = 600\<rparr>" 1920 1080 amd64OutOfRange]
  by (simp add: roundHalfAway_def floor_rat_numeral frac_def)

text \<open>
  The exact half-way case can go the other way, because the quotient \<open>width / srcW\<close> is
  rounded before it is multiplied: a 6 by 27 source at width 13 has \<open>27 * 13 / 6 = 58.5\<close>,
  which rounds half away from zero to 59, and the calculator returns 58.
\<close>

lemma f64_of_int_examples: "f64_of_int 13 = Finite 13" "f64_of_int 6 = Finite 6" "f64_of_int 27 = Finite 27"
  by (simp_all add: f64_of_int_def round_f64_numeral)

lemma round_f64_13_6: "round_f64 (13 / 6) = Finite (4878899596318037 / 2251799813685248)"
  using round_f64_eval [of "13 / 6" 1 4878899596318037]
  by (simp add: roundEven_eqI)

lemma round_f64_27_scale: "round_f64 (131730289100586999 / 2251799813685248) = Finite (8233143068786687 / 140737488355328)"
  using round_f64_eval [of "131730289100586999 / 2251799813685248" 5 8233143068786687]
  by (simp add: roundEven_eqI)

theorem single_dimension_counterexample:
  "CalculateOutputSize amd64OutOfRange 6 27
     \<lparr>ResizeSpec.Scale = Finite 0, ResizeSpec.Width = 13, ResizeSpec.Height = 0\<rparr> = (13, 58)
   \<and> roundHalfAway (27 * 13 / 6) = 59"
  by (simp add: CalculateOutputSize_def f64_of_int_examples round_f64_13_6 round_f64_27_scale int_of_f64_numeral roundHalfAway_def
        floor_rat_numeral)

text \<open>
  C7 (no-op resize). For an all-zero request (scale zero, width zero, height zero)
  \<open>CalculateOutputSize\<close> returns the source dimensions and \<open>ResizeImage\<close> returns
  the source image itself, whatever the allocator and the resampler would do: nothing is
  allocated and nothing is resampled. Whenever the computed destination dimensions equal
  the source dimensions, \<open>ResizeImage\<close> returns the source image itself; this is the
  case for a scale of 1.0 on every image whose sides are at most \<open>2\<^sup>5\<^sup>3\<close>.
\<close>

theorem resize_noop:
  "(f64_eq0 (ResizeSpec.Scale spec) \<and> ResizeSpec.Width spec = 0 \<and> ResizeSpec.Height spec = 0 \<longrightarrow>
      CalculateOutputSize oob srcWidth srcHeight spec = (srcWidth, srcHeight)
      \<and> ResizeImage oob mk scaler src spec = Returns src)
   \<and> (CalculateOutputSizeFromImage oob src spec = (Dx src, Dy src) \<longrightarrow>
      ResizeImage oob mk scaler src spec = Returns src)
   \<and> (ResizeSpec.Scale spec = Finite 1 \<and> 0 \<le> sint (Dx src) \<and> sint (Dx src) \<le> 2 ^ 53
       \<and> 0 \<le> sint (Dy src) \<and> sint (Dy src) \<le> 2 ^ 53 \<longrightarrow>
      ResizeImage oob mk scaler src spec = Returns src)"
  using no_request_identity same_size_noop scale_one_noop by blast

theorem resize_noop_witness:
  "CalculateOutputSize amd64OutOfRange 640 480
      \<lparr>ResizeSpec.Scale = Finite 0, ResizeSpec.Width = 0, ResizeSpec.Height = 0\<rparr> = (640, 480)
   \<and> ResizeImage amd64OutOfRange (\<lambda>n. Some ''out of memory'') (catmullRomScale sampleEnv)
      \<lparr>Dx = 640, Dy = 480, Pix = [7]\<rparr>
      \<lparr>ResizeSpec.Scale = Finite 0, ResizeSpec.Width = 0, ResizeSpec.Height = 0\<rparr>
       = Returns \<lparr>Dx = 640, Dy = 480, Pix = [7]\<rparr>
   \<and> ResizeImage amd64OutOfRange (\<lambda>n. Some ''out of memory'') (catmullRomScale sampleEnv)
      \<lparr>Dx = 640, Dy = 480, Pix = [7]\<rparr>
      \<lparr>ResizeSpec.Scale = Finite 1, ResizeSpec.Width = 0, ResizeSpec.Height = 0\<rparr>
       = Returns \<lparr>Dx = 640, Dy = 480, Pix = [7]\<rparr>"
  using resize_noop [of "\<lparr>ResizeSpec.Scale = Finite 0, ResizeSpec.Width = 0, ResizeSpec.Height = 0\<rparr>"
          amd64OutOfRange 640 480 "\<lambda>n. Some ''out of memory''" "catmullRomScale sampleEnv"
          "\<lparr>Dx = 640, Dy = 480, Pix = [7]\<rparr>"]
        resize_noop [of "\<lparr>ResizeSpec.Scale = Finite 1, ResizeSpec.Width = 0, ResizeSpec.Height = 0\<rparr>"
          amd64OutOfRange 640 480 "\<lambda>n. Some ''out of memory''" "catmullRomScale sampleEnv"
          "\<lparr>Dx = 640, Dy = 480, Pix = [7]\<rparr>"]
  by simp

section \<open>Claims about formats and output paths\<close>

text \<open>
  C8 (output path). \<open>GenerateOutputPath\<close> is a function of its three strings alone. The
  output file name is the base name of the source path without its extension, followed by
  the extension of the format: \<open>.jpg\<close> for jpeg, \<open>.png\<close> for png, \<open>.webp\<close> for webp,
  \<open>.gif\<close> for gif and \<open>.bmp\<close> for bmp. Reading the name back, its extension is the
  format's and the rest is the source's base name, whatever the format. The output path is
  the output directory joined with that name, and its last element is that name (for every
  source path that names a file, that is, whose base name is not the root). For example
  \<open>photo.jpg\<close> converted to png under \<open>out\<close> is \<open>out/photo.png\<close>.
\<close>

theorem output_path_naming:
  "GenerateOutputFilename inputPath fmt = baseNameWithoutExt inputPath @ newExt fmt
   \<and> newExt FormatJPEG = ''.jpg'' \<and> newExt FormatPNG = ''.png'' \<and> newExt FormatWebP = ''.webp''
   \<and> newExt FormatGIF = ''.gif'' \<and> newExt FormatBMP = ''.bmp''
   \<and> filepath_Ext (GenerateOutputFilename inputPath fmt) = newExt fmt
   \<and> TrimSuffix (GenerateOutputFilename inputPath fmt) (newExt fmt) = baseNameWithoutExt inputPath
   \<and> GenerateOutputPath inputPath outputDir fmt =
       filepath_Join [outputDir, GenerateOutputFilename inputPath fmt]
   \<and> (filepath_Base inputPath \<noteq> ''/'' \<longrightarrow>
        filepath_Base (GenerateOutputPath inputPath outputDir fmt) =
          GenerateOutputFilename inputPath fmt)"
  by (simp add: GenerateOutputFilename_def newExt_cases Ext_append_newExt TrimSuffix_append
        GenerateOutputPath_def Base_GenerateOutputPath [unfolded GenerateOutputPath_def GenerateOutputFilename_def])

lemma sample_paths:
  "filepath_Base ''photo.jpg'' = ''photo.jpg''"
  "GenerateOutputFilename ''photo.jpg'' FormatPNG = ''photo.png''"
  "GenerateOutputPath ''photo.jpg'' ''out'' FormatPNG = ''out/photo.png''"
  "GenerateOutputPath ''/input/dir/graphic.webp'' ''/output/dir'' FormatGIF = ''/output/dir/graphic.gif''"
  by code_simp+

theorem output_path_naming_witness:
  "filepath_Base (GenerateOutputPath ''photo.jpg'' ''out'' FormatPNG) = ''photo.png''
   \<and> GenerateOutputPath ''photo.jpg'' ''out'' FormatPNG = ''out/photo.png''
   \<and> GenerateOutputPath ''/input/dir/graphic.webp'' ''/output/dir'' FormatGIF
       = ''/output/dir/graphic.gif''"
proof -
  have "filepath_Base ''photo.jpg'' \<noteq> ''/''"
    by (simp add: sample_paths)
  then have "filepath_Base (GenerateOutputPath ''photo.jpg'' ''out'' FormatPNG) =
      GenerateOutputFilename ''photo.jpg'' FormatPNG"
    using output_path_naming [of "''photo.jpg''" FormatPNG "''out''"] by blast
  then show ?thesis
    by (simp add: sample_paths)
qed

text \<open>
  C10 (classifier and detector agree). \<open>IsImageFile\<close> accepts a path exactly when
  \<open>DetectFormat\<close> succeeds on it. Hence converting a file that the classifier accepts
  never returns the error of the format detector, and no result of a batch run with the
  repository's classifier carries that error.
\<close>

theorem classifier_matches_detector:
  "IsImageFile uni path = (\<exists>fmt. DetectFormat uni path = Inr fmt)
   \<and> (IsImageFile (unicodeLower env) path \<longrightarrow>
        (\<forall>r e. ConvertImage env c path outputDir = Returns r \<longrightarrow>
           Error r \<noteq> Some (Wrap ''failed to detect format'' e)))
   \<and> (\<forall>err c' results.
         IsImageFileOf fsManager = IsImageFile (unicodeLower env)
         \<and> ProcessDirectory env fsManager c inputDir outputDir (Returns (err, c', results)) \<longrightarrow>
           (\<forall>r \<in> set results. \<forall>e. Error r \<noteq> Some (Wrap ''failed to detect format'' e)))"
proof (intro conjI allI impI ballI)
  show "IsImageFile uni path = (\<exists>fmt. DetectFormat uni path = Inr fmt)"
    by (simp add: DetectFormat_Inr_iff)
next
  fix r e
  assume "IsImageFile (unicodeLower env) path" "ConvertImage env c path outputDir = Returns r"
  then show "Error r \<noteq> Some (Wrap ''failed to detect format'' e)"
    by (rule dispatched_never_undetected)
next
  fix err c' results r e
  assume a: "IsImageFileOf fsManager = IsImageFile (unicodeLower env)
         \<and> ProcessDirectory env fsManager c inputDir outputDir (Returns (err, c', results))"
     and r: "r \<in> set results"
  from conjunct2 [OF a] show "Error r \<noteq> Some (Wrap ''failed to detect format'' e)"
  proof (cases rule: ProcessDirectory.cases)
    case (scanFailed err')
    then show ?thesis using r by simp
  next
    case (processed files c1 imageFiles)
    have "image_mset Returns (mset results) = image_mset (\<lambda>f. ConvertImage env c f outputDir)
            (mset (filter (IsImageFileOf fsManager) files))"
      using ProcessDirectory_outcome [OF conjunct2 [OF a] processed(2)] by simp
    moreover have "Returns r \<in># image_mset Returns (mset results)"
      using r by simp
    ultimately obtain f where "IsImageFileOf fsManager f" "ConvertImage env c f outputDir = Returns r"
      by auto
    then show ?thesis
      using a dispatched_never_undetected by simp
  qed
qed

theorem classifier_matches_detector_witness:
  "IsImageFile (\<lambda>s. s) ''in/a.png''
   \<and> (\<exists>fmt. DetectFormat (\<lambda>s. s) ''in/a.png'' = Inr fmt)
   \<and> (\<exists>c' results.
        ProcessDirectory sampleEnv sampleScanner (NewConverter keepFormatConfig) ''in'' ''out''
          (Returns (None, c', results))
        \<and> \<not> (\<exists>r \<in> set results. \<exists>e. Error r = Some (Wrap ''failed to detect format'' e)))"
proof -
  note cm = classifier_matches_detector [of "\<lambda>s. s" "''in/a.png''" sampleEnv
      "NewConverter keepFormatConfig" "''out''" sampleScanner "''in''"]
  have 1: "\<exists>fmt. DetectFormat (\<lambda>s. s) ''in/a.png'' = Inr fmt"
    using cm sample_classifier(1) by blast
  have cl: "IsImageFileOf sampleScanner = IsImageFile (unicodeLower sampleEnv)"
    by (simp add: sampleScanner_def sampleEnv_def)
  have "\<forall>f \<in> set sampleFiles. IsImageFileOf sampleScanner f \<longrightarrow>
      returns sampleEnv (NewConverter keepFormatConfig) ''out'' f"
    by (simp add: sampleFiles_def sample_returns NewConverter_def sampleScanner_def
          sample_classifier)
  then obtain c' results where run:
    "ProcessDirectory sampleEnv sampleScanner (NewConverter keepFormatConfig) ''in'' ''out''
       (Returns (None, c', results))"
    using ProcessDirectory_returns [OF sample_scan] by blast
  have "\<forall>r \<in> set results. \<forall>e. Error r \<noteq> Some (Wrap ''failed to detect format'' e)"
    using cm cl run by blast
  then show ?thesis
    using 1 run sample_classifier(1) by blast
qed

section \<open>Claims about the converter and the batch\<close>

text \<open>
  C9 (format resolution, as amended). For a file that loads, the resizing step comes before
  format resolution, and a panic of the resizing step is the outcome of the conversion;
  otherwise: when no format is requested and the extension of the source path, lower-cased,
  is not one of \<open>.jpg .jpeg .png .webp .gif .bmp\<close>, the conversion is the failure
  \<open>failed to detect format\<close> with an empty output path, whatever the saver would do;
  \<open>.jpg\<close> and \<open>.jpeg\<close> both resolve to jpeg. When a format is requested, resolution
  does not fail: it yields the lower-cased request (jpg becoming jpeg). For a requested
  format that is not supported the conversion is still a failure, but one of the save step,
  after the output path was generated and the file creation attempted:
  \<open>failed to create file\<close> or \<open>unsupported output format\<close>.
\<close>

theorem format_resolution_failure:
  assumes load: "Load env sourcePath = Inr img"
  shows "(Format (config c) = [] \<and> \<not> IsImageFile (unicodeLower env) sourcePath \<longrightarrow>
            ConvertImage env c sourcePath outputDir =
              (case resized env c img of
                 Panics msg \<Rightarrow> Panics msg
               | Returns resizedImg \<Rightarrow>
                   Returns \<lparr>SourcePath = sourcePath, OutputPath = [], Success = False,
                     Error = Some (Wrap ''failed to detect format''
                       (UnsupportedImageFormat (ToLower (unicodeLower env) (filepath_Ext sourcePath))))\<rparr>))
       \<and> IsImageFile (unicodeLower env) sourcePath =
            (ToLower (unicodeLower env) (filepath_Ext sourcePath)
               \<in> {''.jpg'', ''.jpeg'', ''.png'', ''.webp'', ''.gif'', ''.bmp''})
       \<and> (ToLower (unicodeLower env) (filepath_Ext sourcePath) \<in> {''.jpg'', ''.jpeg''} \<longrightarrow>
            DetectFormat (unicodeLower env) sourcePath = Inr FormatJPEG)
       \<and> (Format (config c) \<noteq> [] \<longrightarrow>
            resolvedFormat env c sourcePath =
              Inr (NormalizeFormat (unicodeLower env) (Format (config c))))
       \<and> (Format (config c) \<noteq> [] \<and> \<not> IsFormatSupported (unicodeLower env) (Format (config c)) \<longrightarrow>
            ConvertImage env c sourcePath outputDir =
              (case resized env c img of
                 Panics msg \<Rightarrow> Panics msg
               | Returns resizedImg \<Rightarrow>
                   Returns \<lparr>SourcePath = sourcePath,
                     OutputPath = GenerateOutputPath sourcePath outputDir
                                    (ToLower (unicodeLower env) (Format (config c))),
                     Success = False,
                     Error = Some (Wrap ''failed to save image''
                       (case osCreate env (GenerateOutputPath sourcePath outputDir
                                             (ToLower (unicodeLower env) (Format (config c)))) of
                          Some err \<Rightarrow> Wrap ''failed to create file'' err
                        | None \<Rightarrow> UnsupportedOutputFormat
                                    (ToLower (unicodeLower env) (Format (config c)))))\<rparr>))"
proof (intro conjI impI)
  assume a: "Format (config c) = [] \<and> \<not> IsImageFile (unicodeLower env) sourcePath"
  then have fmt: "resolvedFormat env c sourcePath =
      Inl (UnsupportedImageFormat (ToLower (unicodeLower env) (filepath_Ext sourcePath)))"
    using DetectFormat_not_image by (simp add: resolvedFormat_def)
  show "ConvertImage env c sourcePath outputDir =
              (case resized env c img of
                 Panics msg \<Rightarrow> Panics msg
               | Returns resizedImg \<Rightarrow>
                   Returns \<lparr>SourcePath = sourcePath, OutputPath = [], Success = False,
                     Error = Some (Wrap ''failed to detect format''
                       (UnsupportedImageFormat (ToLower (unicodeLower env) (filepath_Ext sourcePath))))\<rparr>)"
  proof (cases "resized env c img")
    case (Returns resizedImg)
    then show ?thesis
      using ConvertImage_detect_failed [OF load Returns fmt] by simp
  next
    case (Panics msg)
    then show ?thesis
      using ConvertImage_panics [OF load Panics] by simp
  qed
next
  show "IsImageFile (unicodeLower env) sourcePath =
            (ToLower (unicodeLower env) (filepath_Ext sourcePath)
               \<in> {''.jpg'', ''.jpeg'', ''.png'', ''.webp'', ''.gif'', ''.bmp''})"
    by (auto simp add: IsImageFile_def imageExtensions_iff)
next
  assume "ToLower (unicodeLower env) (filepath_Ext sourcePath) \<in> {''.jpg'', ''.jpeg''}"
  then show "DetectFormat (unicodeLower env) sourcePath = Inr FormatJPEG"
    by (auto simp add: DetectFormat_def Let_def)
next
  assume "Format (config c) \<noteq> []"
  then show "resolvedFormat env c sourcePath =
              Inr (NormalizeFormat (unicodeLower env) (Format (config c)))"
    by (simp add: resolvedFormat_def)
next
  assume a: "Format (config c) \<noteq> [] \<and> \<not> IsFormatSupported (unicodeLower env) (Format (config c))"
  let ?fmt = "NormalizeFormat (unicodeLower env) (Format (config c))"
  have fmt: "resolvedFormat env c sourcePath = Inr ?fmt"
    using a by (simp add: resolvedFormat_def)
  have un: "?fmt \<notin> {FormatJPEG, FormatPNG, FormatWebP, FormatGIF, FormatBMP}"
       "?fmt = ToLower (unicodeLower env) (Format (config c))"
    using a NormalizeFormat_unsupported by blast+
  show "ConvertImage env c sourcePath outputDir =
              (case resized env c img of
                 Panics msg \<Rightarrow> Panics msg
               | Returns resizedImg \<Rightarrow>
                   Returns \<lparr>SourcePath = sourcePath,
                     OutputPath = GenerateOutputPath sourcePath outputDir
                                    (ToLower (unicodeLower env) (Format (config c))),
                     Success = False,
                     Error = Some (Wrap ''failed to save image''
                       (case osCreate env (GenerateOutputPath sourcePath outputDir
                                             (ToLower (unicodeLower env) (Format (config c)))) of
                          Some err \<Rightarrow> Wrap ''failed to create file'' err
                        | None \<Rightarrow> UnsupportedOutputFormat
                                    (ToLower (unicodeLower env) (Format (config c)))))\<rparr>)"
  proof (cases "resized env c img")
    case (Returns resizedImg)
    show ?thesis
      unfolding ConvertImage_saved [OF load Returns fmt] Save_unsupported [OF un(1)] Returns
      by (simp add: un(2) split: option.splits)
  next
    case (Panics msg)
    then show ?thesis
      using ConvertImage_panics [OF load Panics] by simp
  qed
qed

theorem format_resolution_failure_witness:
  "ConvertImage sampleEnv (NewConverter keepFormatConfig) ''in/d.dat'' ''out'' =
      Returns \<lparr>SourcePath = ''in/d.dat'', OutputPath = [], Success = False,
       Error = Some (Wrap ''failed to detect format'' (UnsupportedImageFormat ''.dat''))\<rparr>
   \<and> ConvertImage sampleEnv (NewConverter tiffConfig) ''in/d.dat'' ''out'' =
      Returns \<lparr>SourcePath = ''in/d.dat'', OutputPath = ''out/d.jpg'', Success = False,
       Error = Some (Wrap ''failed to save image'' (UnsupportedOutputFormat ''tiff''))\<rparr>"
proof -
  note fr = format_resolution_failure [OF sample_load(2)]
  have k: "Format (config (NewConverter keepFormatConfig)) = []"
      "unicodeLower sampleEnv = (\<lambda>s. s)"
      "Format (config (NewConverter tiffConfig)) = ''tiff''"
    by (simp_all add: NewConverter_def keepFormatConfig_def tiffConfig_def sampleEnv_def)
  have r: "resized sampleEnv (NewConverter keepFormatConfig) \<lparr>Dx = 100, Dy = 100, Pix = []\<rparr> =
        Returns \<lparr>Dx = 50, Dy = 50, Pix = replicate 10000 0\<rparr>"
      "resized sampleEnv (NewConverter tiffConfig) \<lparr>Dx = 100, Dy = 100, Pix = []\<rparr> =
        Returns \<lparr>Dx = 50, Dy = 50, Pix = replicate 10000 0\<rparr>"
    by (rule sample_resized, simp add: NewConverter_def)+
  have p: "GenerateOutputPath ''in/d.dat'' ''out'' ''tiff'' = ''out/d.jpg''"
    by code_simp
  have c: "osCreate sampleEnv ''out/d.jpg'' = None"
    by (simp add: sampleEnv_def)
  have "ConvertImage sampleEnv (NewConverter keepFormatConfig) ''in/d.dat'' ''out'' =
      Returns \<lparr>SourcePath = ''in/d.dat'', OutputPath = [], Success = False,
       Error = Some (Wrap ''failed to detect format'' (UnsupportedImageFormat ''.dat''))\<rparr>"
    using fr [of "NewConverter keepFormatConfig" "''out''"] sample_classifier(4)
    by (simp add: k r sample_strings)
  moreover have "ConvertImage sampleEnv (NewConverter tiffConfig) ''in/d.dat'' ''out'' =
      Returns \<lparr>SourcePath = ''in/d.dat'', OutputPath = ''out/d.jpg'', Success = False,
       Error = Some (Wrap ''failed to save image'' (UnsupportedOutputFormat ''tiff''))\<rparr>"
    using fr [of "NewConverter tiffConfig" "''out''"] sample_strings(3)
    by (simp add: k r sample_strings p c)
  ultimately show ?thesis by simp
qed

text \<open>
  The claim as stated puts the failure for an unsupported requested format in the
  format-resolution step. With the format \<open>tiff\<close> requested, \<open>a.png\<close> is resolved to the
  output path \<open>out/a.jpg\<close>, the file is created, and the failure comes from the saver.
\<close>

theorem format_resolution_counterexample:
  "Format tiffConfig \<noteq> [] \<and> \<not> IsFormatSupported (unicodeLower sampleEnv) (Format tiffConfig)
   \<and> ConvertImage sampleEnv (NewConverter tiffConfig) ''in/a.png'' ''out'' =
      Returns \<lparr>SourcePath = ''in/a.png'', OutputPath = ''out/a.jpg'', Success = False,
       Error = Some (Wrap ''failed to save image'' (UnsupportedOutputFormat ''tiff''))\<rparr>"
proof -
  have k: "Format (config (NewConverter tiffConfig)) = ''tiff''" "unicodeLower sampleEnv = (\<lambda>s. s)"
      "Format tiffConfig = ''tiff''"
    by (simp_all add: NewConverter_def tiffConfig_def sampleEnv_def)
  have n: "NormalizeFormat (\<lambda>s. s) ''tiff'' = ''tiff''"
    using NormalizeFormat_unsupported(2) [OF sample_strings(3)] by (simp add: sample_strings)
  have fmt: "resolvedFormat sampleEnv (NewConverter tiffConfig) ''in/a.png'' = Inr ''tiff''"
    by (simp add: resolvedFormat_def k n)
  have r: "resized sampleEnv (NewConverter tiffConfig) \<lparr>Dx = 100, Dy = 100, Pix = []\<rparr> =
        Returns \<lparr>Dx = 50, Dy = 50, Pix = replicate 10000 0\<rparr>"
    by (rule sample_resized) (simp add: NewConverter_def)
  have s: "Save sampleEnv img ''out/a.jpg'' ''tiff'' q = Some (UnsupportedOutputFormat ''tiff'')" for img q
    by (simp add: Save_def sampleEnv_def Format_defs)
  show ?thesis
    using ConvertImage_saved [OF sample_load(1) r fmt, of "''out''"]
    by (simp add: k sample_strings s)
qed







end
